theory Spec2Isabelle
  imports Complex_Main "HOL-Library.Word" "HOL-Library.Multiset"
begin

section \<open>JavaScript numbers\<close>

text \<open>
  A JavaScript number is \<open>NaN\<close>, one of the two infinities, or a finite value: an
  IEEE-754 binary64 double, written here as the real it denotes. An arithmetic operation
  computes the exact result and rounds it to the nearest double, a tie going to the
  double with an even significand; a result whose rounding reaches \<open>2\<^sup>1\<^sup>0\<^sup>2\<^sup>4\<close> is an
  infinity, and a result below \<open>2\<^sup>-\<^sup>1\<^sup>0\<^sup>2\<^sup>2\<close> is rounded on the grid of the subnormal numbers.
  The sign of zero is not part of the model (every zero divisor of \<open>color-analysis.ts\<close>
  is a positive zero: a length, or a sum or difference of two numbers of equal
  magnitude). A comparison with \<open>NaN\<close> is false, \<open>0 / 0\<close> is \<open>NaN\<close> and \<open>x / 0\<close> is an
  infinity, as in the language.
\<close>

datatype number = NaN | PosInf | NegInf | Fin real

subsection \<open>Rounding to binary64\<close>

text \<open>The nearest integer, a tie going to the even one.\<close>

definition roundTiesToEven :: "real \<Rightarrow> int" where
  "roundTiesToEven y =
     (let f = \<lfloor>y\<rfloor>; r = y - of_int f
      in if r < 1 / 2 then f else if 1 / 2 < r then f + 1 else if even f then f else f + 1)"

text \<open>
  The exponent of the binade of a number \<open>x\<close> other than zero: the \<open>e\<close> with
  \<open>2\<^bsup>e\<^esup> \<le> \<bar>x\<bar> < 2\<^bsup>e + 1\<^esup>\<close>, and \<open>-1022\<close> for the subnormal numbers. A double of that
  binade is a multiple of \<open>2\<^bsup>e - 52\<^esup>\<close>, the unit in the last place of its 53-bit
  significand. Zero is rounded to zero, whatever the unit.
\<close>

definition binade :: "real \<Rightarrow> int" where
  "binade x = max \<lfloor>log 2 \<bar>x\<bar>\<rfloor> (- 1022)"

definition ulp :: "real \<Rightarrow> real" where
  "ulp x = 2 powi (binade x - 52)"

definition round64 :: "real \<Rightarrow> real" where
  "round64 x = of_int (roundTiesToEven (x / ulp x)) * ulp x"

text \<open>The result of an operation whose exact value is \<open>x\<close>.\<close>

definition number64 :: "real \<Rightarrow> number" where
  "number64 x =
     (let y = round64 x
      in if 2 ^ 1024 \<le> \<bar>y\<bar> then (if 0 < y then PosInf else NegInf) else Fin y)"

subsection \<open>Arithmetic and comparisons\<close>

fun jneg :: "number \<Rightarrow> number" where
  "jneg NaN = NaN"
| "jneg PosInf = NegInf"
| "jneg NegInf = PosInf"
| "jneg (Fin a) = Fin (- a)"

fun jadd :: "number \<Rightarrow> number \<Rightarrow> number" where
  "jadd (Fin a) (Fin b) = number64 (a + b)"
| "jadd NaN y = NaN"
| "jadd x NaN = NaN"
| "jadd PosInf NegInf = NaN"
| "jadd NegInf PosInf = NaN"
| "jadd PosInf y = PosInf"
| "jadd NegInf y = NegInf"
| "jadd (Fin a) y = y"

definition jsub :: "number \<Rightarrow> number \<Rightarrow> number" where
  "jsub x y = jadd x (jneg y)"

fun jmul :: "number \<Rightarrow> number \<Rightarrow> number" where
  "jmul (Fin a) (Fin b) = number64 (a * b)"
| "jmul NaN y = NaN"
| "jmul x NaN = NaN"
| "jmul (Fin a) y = (if a = 0 then NaN else if 0 < a then y else jneg y)"
| "jmul x (Fin b) = (if b = 0 then NaN else if 0 < b then x else jneg x)"
| "jmul PosInf y = y"
| "jmul NegInf y = jneg y"

fun jdiv :: "number \<Rightarrow> number \<Rightarrow> number" where
  "jdiv (Fin a) (Fin b) =
     (if b = 0 then (if a = 0 then NaN else if 0 < a then PosInf else NegInf)
      else number64 (a / b))"
| "jdiv NaN y = NaN"
| "jdiv x NaN = NaN"
| "jdiv (Fin a) y = Fin 0"
| "jdiv x (Fin b) = (if 0 \<le> b then x else jneg x)"
| "jdiv x y = NaN"

fun jlt :: "number \<Rightarrow> number \<Rightarrow> bool" where
  "jlt (Fin a) (Fin b) = (a < b)"
| "jlt NaN y = False"
| "jlt x NaN = False"
| "jlt PosInf y = False"
| "jlt x NegInf = False"
| "jlt x y = True"

text \<open>Strict equality \<open>===\<close> on numbers: \<open>NaN\<close> is not equal to itself.\<close>

fun jeq :: "number \<Rightarrow> number \<Rightarrow> bool" where
  "jeq NaN y = False"
| "jeq x NaN = False"
| "jeq x y = (x = y)"

definition jgt :: "number \<Rightarrow> number \<Rightarrow> bool" where
  "jgt x y = jlt y x"

definition jle :: "number \<Rightarrow> number \<Rightarrow> bool" where
  "jle x y = (jlt x y \<or> jeq x y)"

definition jge :: "number \<Rightarrow> number \<Rightarrow> bool" where
  "jge x y = jle y x"

text \<open>\<open>Math.max\<close> and \<open>Math.min\<close>: \<open>NaN\<close> if an argument is \<open>NaN\<close>; of no argument,
  \<open>-Infinity\<close> and \<open>Infinity\<close>.\<close>

definition jmax :: "number \<Rightarrow> number \<Rightarrow> number" where
  "jmax x y = (if x = NaN \<or> y = NaN then NaN else if jlt x y then y else x)"

definition jmin :: "number \<Rightarrow> number \<Rightarrow> number" where
  "jmin x y = (if x = NaN \<or> y = NaN then NaN else if jlt y x then y else x)"

definition Math_max :: "number list \<Rightarrow> number" where
  "Math_max xs = foldl jmax NegInf xs"

definition Math_min :: "number list \<Rightarrow> number" where
  "Math_min xs = foldl jmin PosInf xs"

text \<open>\<open>Math.round\<close> on a finite number: the nearest integer, a tie going up.\<close>

definition Math_round :: "real \<Rightarrow> int" where
  "Math_round x = \<lfloor>x + 1 / 2\<rfloor>"

section \<open>Strings\<close>

text \<open>
  A string is a list of code units; only the code units below 256 are modelled.
  \<open>s.slice(a, b)\<close> with \<open>0 \<le> a \<le> b\<close> keeps the code units at the positions from \<open>a\<close>
  up to, not including, \<open>b\<close>, as many of them as the string has.
\<close>

definition slice_string :: "nat \<Rightarrow> nat \<Rightarrow> string \<Rightarrow> string" where
  "slice_string a b s = take (b - a) (drop a s)"

definition isWhiteSpace :: "char \<Rightarrow> bool" where
  "isWhiteSpace c =
     (c = CHR 0x09 \<or> c = CHR 0x0A \<or> c = CHR 0x0B \<or> c = CHR 0x0C \<or> c = CHR 0x0D \<or>
      c = CHR 0x20 \<or> c = CHR 0xA0)"

definition hexDigitValue :: "char \<Rightarrow> nat option" where
  "hexDigitValue c =
     (let n = (of_char c :: nat) in
      if 48 \<le> n \<and> n \<le> 57 then Some (n - 48)
      else if 97 \<le> n \<and> n \<le> 102 then Some (n - 87)
      else if 65 \<le> n \<and> n \<le> 70 then Some (n - 55)
      else None)"

definition isHexDigit :: "char \<Rightarrow> bool" where
  "isHexDigit c = (hexDigitValue c \<noteq> None)"

definition hexValue :: "string \<Rightarrow> nat" where
  "hexValue z = foldl (\<lambda>acc c. 16 * acc + the (hexDigitValue c)) 0 z"

text \<open>
  \<open>parseInt(s, 16)\<close>: leading white space is dropped, then a sign, then a prefix \<open>0x\<close>
  or \<open>0X\<close>; the value is that of the longest run of hexadecimal digits that follows, of
  either case, and \<open>NaN\<close> when there is no digit. The value is the integer itself: an
  integer below \<open>2\<^sup>5\<^sup>3\<close> is a double, and the strings that \<open>color-analysis.ts\<close> parses
  have at most two code units.
\<close>

definition parseInt16 :: "string \<Rightarrow> number" where
  "parseInt16 s =
     (let s1 = dropWhile isWhiteSpace s;
          sign = (if s1 \<noteq> [] \<and> hd s1 = CHR ''-'' then - 1 else (1 :: int));
          s2 = (if s1 \<noteq> [] \<and> (hd s1 = CHR ''+'' \<or> hd s1 = CHR ''-'') then tl s1 else s1);
          s3 = (if 2 \<le> length s2 \<and> (take 2 s2 = ''0x'' \<or> take 2 s2 = ''0X'')
                then drop 2 s2 else s2);
          z = takeWhile isHexDigit s3
      in if z = [] then NaN else Fin (of_int (sign * int (hexValue z))))"

definition hexDigit :: "nat \<Rightarrow> char" where
  "hexDigit n = ''0123456789abcdef'' ! n"

fun hexString :: "nat \<Rightarrow> string" where
  "hexString n = (if n < 16 then [hexDigit n] else hexString (n div 16) @ [hexDigit (n mod 16)])"

declare hexString.simps [simp del]

text \<open>\<open>n.toString(16)\<close> of an integer: its digits, after a minus sign when it is
  negative.\<close>

definition toString16 :: "int \<Rightarrow> string" where
  "toString16 n = (if n < 0 then ''-'' @ hexString (nat (- n)) else hexString (nat n))"

section \<open>Colour spaces\<close>

text \<open>\<open>rgbToHsl\<close>, with the \<open>switch (max)\<close> as the chain of strict equalities it is.\<close>

definition rgbToHsl :: "number \<Rightarrow> number \<Rightarrow> number \<Rightarrow> number \<times> number \<times> number" where
  "rgbToHsl r0 g0 b0 =
     (let r = jdiv r0 (Fin 255);
          g = jdiv g0 (Fin 255);
          b = jdiv b0 (Fin 255);
          mx = Math_max [r, g, b];
          mn = Math_min [r, g, b];
          l = jdiv (jadd mx mn) (Fin 2)
      in if jeq mx mn then (jmul (Fin 0) (Fin 360), jmul (Fin 0) (Fin 100), jmul l (Fin 100))
         else
           let d = jsub mx mn;
               s = (if jgt l (Fin (1 / 2)) then jdiv d (jsub (jsub (Fin 2) mx) mn)
                    else jdiv d (jadd mx mn));
               h = (if jeq mx r then jadd (jdiv (jsub g b) d) (if jlt g b then Fin 6 else Fin 0)
                    else if jeq mx g then jadd (jdiv (jsub b r) d) (Fin 2)
                    else if jeq mx b then jadd (jdiv (jsub r g) d) (Fin 4)
                    else Fin 0);
               h' = jdiv h (Fin 6)
           in (jmul h' (Fin 360), jmul s (Fin 100), jmul l (Fin 100)))"

text \<open>\<open>rgbToHex\<close>; its callers pass finite numbers.\<close>

definition rgbToHex :: "real \<Rightarrow> real \<Rightarrow> real \<Rightarrow> string" where
  "rgbToHex r g b =
     ''#'' @ concat (map (\<lambda>x. let hex = toString16 (Math_round x)
                               in if length hex = 1 then ''0'' @ hex else hex) [r, g, b])"

section \<open>Dominant colours by k-means\<close>

text \<open>
  The pixel buffer \<open>imageData.data\<close> is a \<open>Uint8ClampedArray\<close>: a list of bytes, four to
  a pixel. A read past its end gives \<open>undefined\<close>, and a comparison with \<open>undefined\<close> is
  false; so the test of the sampling loop fails when the alpha byte at \<open>i + 3\<close> is
  missing. The sampled channels are integers and every number computed from them is
  finite. The sums, means and distances of the clustering are reals here, computed without
  the rounding of the doubles: what is proved of the extraction, the number of colours and
  the range of the centroids, does not depend on the last bit of a mean.
\<close>

type_synonym rgb = "real \<times> real \<times> real"

datatype error = TypeError

definition passesFilter :: "8 word list \<Rightarrow> nat \<Rightarrow> bool" where
  "passesFilter d i =
     (i + 3 < length d \<and> 200 < d ! (i + 3) \<and>
      30 < d ! i \<and> 30 < d ! (i + 1) \<and> 30 < d ! (i + 2) \<and>
      d ! i < 250 \<and> d ! (i + 1) < 250 \<and> d ! (i + 2) < 250)"

definition pixelAt :: "8 word list \<Rightarrow> nat \<Rightarrow> rgb" where
  "pixelAt d i = (real (unat (d ! i)), real (unat (d ! (i + 1))), real (unat (d ! (i + 2))))"

text \<open>The sampling loop \<open>for (let i = 0; i < imageData.data.length; i += 16)\<close>, from
  the index \<open>i\<close> on, with the pixels pushed so far.\<close>

function samplePixels :: "8 word list \<Rightarrow> nat \<Rightarrow> rgb list \<Rightarrow> rgb list" where
  "samplePixels d i pixels =
     (if i < length d
      then samplePixels d (i + 16) (if passesFilter d i then pixels @ [pixelAt d i] else pixels)
      else pixels)"
  by pat_completeness auto
termination
  by (relation "measure (\<lambda>(d, i, pixels). length d - i)") auto

declare samplePixels.simps [simp del]

text \<open>
  The initial centroids. \<open>rand i\<close> is what the call of \<open>Math.random()\<close> in round \<open>i\<close> of
  the loop returns. An index outside the array reads \<open>undefined\<close>, and spreading
  \<open>undefined\<close> throws a \<open>TypeError\<close>.
\<close>

fun initCentroids :: "(nat \<Rightarrow> real) \<Rightarrow> rgb list \<Rightarrow> nat \<Rightarrow> error + rgb list" where
  "initCentroids rand pixels 0 = Inr []"
| "initCentroids rand pixels (Suc i) =
     (case initCentroids rand pixels i of
        Inl e \<Rightarrow> Inl e
      | Inr centroids \<Rightarrow>
          (let idx = \<lfloor>rand i * real (length pixels)\<rfloor>
           in if 0 \<le> idx \<and> nat idx < length pixels
              then Inr (centroids @ [pixels ! nat idx])
              else Inl TypeError))"

definition distance :: "rgb \<Rightarrow> rgb \<Rightarrow> real" where
  "distance pixel centroid =
     (case (pixel, centroid) of
        ((p0, p1, p2), (c0, c1, c2)) \<Rightarrow> sqrt ((p0 - c0)\<^sup>2 + (p1 - c1)\<^sup>2 + (p2 - c2)\<^sup>2))"

text \<open>The inner \<open>centroids.forEach\<close>: the index of the first centroid at the least
  distance, starting from \<open>minDistance = Infinity\<close> and \<open>closestCluster = 0\<close>.\<close>

definition closestCluster :: "rgb list \<Rightarrow> rgb \<Rightarrow> nat" where
  "closestCluster centroids pixel =
     snd (foldl (\<lambda>(minDistance, closest) (centroid, index).
                   if jlt (Fin (distance pixel centroid)) minDistance
                   then (Fin (distance pixel centroid), index)
                   else (minDistance, closest))
            (PosInf, 0) (zip centroids [0..<length centroids]))"

text \<open>The outer \<open>pixels.forEach\<close>. \<open>clusters[closestCluster].push(pixel)\<close> throws a
  \<open>TypeError\<close> when there is no such cluster, which is the case of \<open>k = 0\<close>.\<close>

fun assignPixels :: "rgb list \<Rightarrow> rgb list \<Rightarrow> rgb list list \<Rightarrow> error + rgb list list" where
  "assignPixels centroids [] clusters = Inr clusters"
| "assignPixels centroids (pixel # pixels) clusters =
     (let c = closestCluster centroids pixel
      in if c < length clusters
         then assignPixels centroids pixels (clusters[c := clusters ! c @ [pixel]])
         else Inl TypeError)"

definition clusterMean :: "rgb list \<Rightarrow> rgb" where
  "clusterMean cluster =
     (foldl (\<lambda>sum p. sum + fst p) 0 cluster / real (length cluster),
      foldl (\<lambda>sum p. sum + fst (snd p)) 0 cluster / real (length cluster),
      foldl (\<lambda>sum p. sum + snd (snd p)) 0 cluster / real (length cluster))"

text \<open>\<open>clusters.forEach((cluster, index) => ...)\<close>, from the cluster of the given index
  on. There are as many clusters as centroids, so no assignment is past the end.\<close>

fun updateCentroids :: "rgb list list \<Rightarrow> nat \<Rightarrow> rgb list \<Rightarrow> rgb list" where
  "updateCentroids [] index centroids = centroids"
| "updateCentroids (cluster # clusters) index centroids =
     updateCentroids clusters (index + 1)
       (if 0 < length cluster then centroids[index := clusterMean cluster] else centroids)"

definition kmeansRound :: "rgb list \<Rightarrow> nat \<Rightarrow> rgb list \<Rightarrow> error + rgb list" where
  "kmeansRound pixels k centroids =
     (case assignPixels centroids pixels (replicate k []) of
        Inl e \<Rightarrow> Inl e
      | Inr clusters \<Rightarrow> Inr (updateCentroids clusters 0 centroids))"

text \<open>The rounds of \<open>for (let iter = 0; iter < 10; iter++)\<close> that remain.\<close>

fun kmeansRounds :: "nat \<Rightarrow> rgb list \<Rightarrow> nat \<Rightarrow> rgb list \<Rightarrow> error + rgb list" where
  "kmeansRounds 0 pixels k centroids = Inr centroids"
| "kmeansRounds (Suc n) pixels k centroids =
     (case kmeansRound pixels k centroids of
        Inl e \<Rightarrow> Inl e
      | Inr centroids' \<Rightarrow> kmeansRounds n pixels k centroids')"

definition extractDominantColors :: "(nat \<Rightarrow> real) \<Rightarrow> 8 word list \<Rightarrow> nat \<Rightarrow> error + string list" where
  "extractDominantColors rand d k =
     (let pixels = samplePixels d 0 []
      in if length pixels = 0 then Inr []
         else
           (case initCentroids rand pixels k of
              Inl e \<Rightarrow> Inl e
            | Inr centroids \<Rightarrow>
                (case kmeansRounds 10 pixels k centroids of
                   Inl e \<Rightarrow> Inl e
                 | Inr centroids' \<Rightarrow> Inr (map (\<lambda>(r, g, b). rgbToHex r g b) centroids'))))"

section \<open>Skin tone analysis\<close>

datatype tone = warm | cool | neutral

record SkinToneLevel =
  level_name :: string
  level_hex :: string
  level_number :: nat

record palette =
  palette_name :: string
  palette_colors :: "string list"

record recommendation =
  clothing :: "string list"
  makeup :: "string list"
  lipColors :: "string list"
  eyeshadow :: "string list"

record SkinToneAnalysis =
  dominantColors :: "string list"
  skinToneType :: tone
  undertone :: string
  skinToneLevel :: SkinToneLevel
  outfitPalettes :: "palette list"
  outfitExamples :: "string list"
  recommendations :: recommendation

definition SKIN_TONE_SCALE :: "SkinToneLevel list" where
  "SKIN_TONE_SCALE =
     [\<lparr>level_name = ''Porcelain'', level_hex = ''#f6ede4'', level_number = 1\<rparr>,
      \<lparr>level_name = ''Ivory'', level_hex = ''#f3e7db'', level_number = 2\<rparr>,
      \<lparr>level_name = ''Light Beige'', level_hex = ''#f7ead0'', level_number = 3\<rparr>,
      \<lparr>level_name = ''Warm Beige'', level_hex = ''#eadaba'', level_number = 4\<rparr>,
      \<lparr>level_name = ''Golden Beige'', level_hex = ''#d7bd96'', level_number = 5\<rparr>,
      \<lparr>level_name = ''Tan'', level_hex = ''#a07e56'', level_number = 6\<rparr>,
      \<lparr>level_name = ''Medium Brown'', level_hex = ''#825c43'', level_number = 7\<rparr>,
      \<lparr>level_name = ''Deep Brown'', level_hex = ''#604134'', level_number = 8\<rparr>,
      \<lparr>level_name = ''Dark Espresso'', level_hex = ''#3a312a'', level_number = 9\<rparr>,
      \<lparr>level_name = ''Ebony'', level_hex = ''#292421'', level_number = 10\<rparr>]"

definition generateRecommendations :: "tone \<Rightarrow> recommendation" where
  "generateRecommendations toneType =
     (case toneType of
        warm \<Rightarrow>
          \<lparr>clothing = [''#8B4513'', ''#CD853F'', ''#DEB887'', ''#F4A460'', ''#D2691E'', ''#FF8C00''],
           makeup = [''#CD853F'', ''#DEB887'', ''#F4A460'', ''#DDBF94''],
           lipColors = [''#CD5C5C'', ''#E9967A'', ''#FA8072'', ''#FF6347''],
           eyeshadow = [''#8B4513'', ''#CD853F'', ''#DEB887'', ''#D2691E'']\<rparr>
      | cool \<Rightarrow>
          \<lparr>clothing = [''#4682B4'', ''#6495ED'', ''#87CEEB'', ''#B0C4DE'', ''#778899'', ''#2F4F4F''],
           makeup = [''#F8F8FF'', ''#E6E6FA'', ''#D8BFD8'', ''#DDA0DD''],
           lipColors = [''#DC143C'', ''#B22222'', ''#8B0000'', ''#FF1493''],
           eyeshadow = [''#4682B4'', ''#6495ED'', ''#9370DB'', ''#8A2BE2'']\<rparr>
      | neutral \<Rightarrow>
          \<lparr>clothing = [''#696969'', ''#708090'', ''#778899'', ''#2F4F4F'', ''#556B2F'', ''#8B4513''],
           makeup = [''#F5F5DC'', ''#FFF8DC'', ''#FAEBD7'', ''#F0E68C''],
           lipColors = [''#CD5C5C'', ''#BC8F8F'', ''#F08080'', ''#E9967A''],
           eyeshadow = [''#CD853F'', ''#BC8F8F'', ''#D2B48C'', ''#DEB887'']\<rparr>)"

definition basePalettes :: "tone \<Rightarrow> palette list" where
  "basePalettes toneType =
     (case toneType of
        warm \<Rightarrow>
          [\<lparr>palette_name = ''Earth Tones'',
            palette_colors = [''#8B4513'', ''#D2691E'', ''#F4A460'', ''#DEB887'', ''#FFFFFF'']\<rparr>,
           \<lparr>palette_name = ''Autumn Spice'',
            palette_colors = [''#B22222'', ''#FF8C00'', ''#DAA520'', ''#CD853F'', ''#F5F5DC'']\<rparr>,
           \<lparr>palette_name = ''Golden Hour'',
            palette_colors = [''#FFD700'', ''#FF6347'', ''#CD853F'', ''#F4A460'', ''#FFFAF0'']\<rparr>,
           \<lparr>palette_name = ''Desert Sunset'',
            palette_colors = [''#FF4500'', ''#FF8C00'', ''#DEB887'', ''#F5DEB3'', ''#FFFFFF'']\<rparr>]
      | cool \<Rightarrow>
          [\<lparr>palette_name = ''Ocean Blues'',
            palette_colors = [''#000080'', ''#4682B4'', ''#87CEEB'', ''#E0F6FF'', ''#FFFFFF'']\<rparr>,
           \<lparr>palette_name = ''Berry Elegance'',
            palette_colors = [''#8B008B'', ''#DC143C'', ''#FFB6C1'', ''#F8F8FF'', ''#000000'']\<rparr>,
           \<lparr>palette_name = ''Winter Frost'',
            palette_colors = [''#2F4F4F'', ''#708090'', ''#B0C4DE'', ''#F0F8FF'', ''#FFFFFF'']\<rparr>,
           \<lparr>palette_name = ''Jewel Tones'',
            palette_colors = [''#4B0082'', ''#008B8B'', ''#9370DB'', ''#E6E6FA'', ''#FFFFFF'']\<rparr>]
      | neutral \<Rightarrow>
          [\<lparr>palette_name = ''Classic Neutrals'',
            palette_colors = [''#000000'', ''#696969'', ''#D3D3D3'', ''#F5F5F5'', ''#FFFFFF'']\<rparr>,
           \<lparr>palette_name = ''Sage & Stone'',
            palette_colors = [''#556B2F'', ''#808080'', ''#D2B48C'', ''#F5F5DC'', ''#FFFFFF'']\<rparr>,
           \<lparr>palette_name = ''Modern Minimalist'',
            palette_colors = [''#2F4F4F'', ''#778899'', ''#B0C4DE'', ''#F8F8FF'', ''#FFFFFF'']\<rparr>,
           \<lparr>palette_name = ''Warm Greys'',
            palette_colors = [''#8B4513'', ''#696969'', ''#BC8F8F'', ''#F5F5DC'', ''#FFFFFF'']\<rparr>])"

text \<open>\<open>generateOutfitPalettes\<close>: the palette pushed for the levels from 7 on, and
  the final \<open>palettes.slice(0, 4)\<close>.\<close>

definition generateOutfitPalettes :: "tone \<Rightarrow> nat \<Rightarrow> palette list" where
  "generateOutfitPalettes toneType skinLevel =
     (let palettes = basePalettes toneType;
          palettes' =
            (if 7 \<le> skinLevel
             then (if toneType = warm
                   then palettes @
                     [\<lparr>palette_name = ''Rich Jewels'',
                       palette_colors = [''#800080'', ''#FF6347'', ''#DAA520'', ''#F4A460'', ''#FFFAF0'']\<rparr>]
                   else if toneType = cool
                   then palettes @
                     [\<lparr>palette_name = ''Royal Blues'',
                       palette_colors = [''#000080'', ''#8B008B'', ''#DC143C'', ''#FFB6C1'', ''#FFFFFF'']\<rparr>]
                   else palettes)
             else palettes)
      in take 4 palettes')"

definition baseExamples :: "tone \<Rightarrow> string list" where
  "baseExamples toneType =
     (case toneType of
        warm \<Rightarrow>
          [''Terracotta blazer with cream trousers and gold accessories'',
           ''Olive green sweater with dark denim jeans and brown leather boots'']
      | cool \<Rightarrow>
          [''Navy blue blouse with grey tailored pants and silver jewelry'',
           ''Emerald green dress with black heels and pearl accessories'']
      | neutral \<Rightarrow>
          [''Charcoal grey suit with white shirt and black leather shoes'',
           ''Sage green cardigan with beige chinos and tan loafers''])"

text \<open>\<open>generateOutfitExamples\<close>: the phrase pushed for the levels from 7 on, and the
  final \<open>slice(0, 2)\<close>.\<close>

definition generateOutfitExamples :: "tone \<Rightarrow> nat \<Rightarrow> string list" where
  "generateOutfitExamples toneType skinLevel =
     (let examples = baseExamples toneType;
          examples' =
            (if 7 \<le> skinLevel
             then (if toneType = warm
                   then examples @
                     [''Bold orange top with dark chocolate brown pants and gold statement jewelry'']
                   else if toneType = cool
                   then examples @
                     [''Rich purple blouse with black trousers and silver metallic accessories'']
                   else examples)
             else examples)
      in take 2 examples')"

text \<open>
  The locals of \<open>analyzeSkinTone\<close>, each under the name it has there. The length of an
  array is below \<open>2\<^sup>3\<^sup>2\<close>, so it is a double as it stands.
\<close>

definition colorHSLs :: "string list \<Rightarrow> (number \<times> number \<times> number) list" where
  "colorHSLs colors =
     map (\<lambda>hex. let r = parseInt16 (slice_string 1 3 hex);
                     g = parseInt16 (slice_string 3 5 hex);
                     b = parseInt16 (slice_string 5 7 hex)
                 in rgbToHsl r g b) colors"

definition avgLightness :: "string list \<Rightarrow> number" where
  "avgLightness colors =
     jdiv (foldl (\<lambda>sum (h, s, l). jadd sum l) (Fin 0) (colorHSLs colors))
          (Fin (real (length (colorHSLs colors))))"

definition avgHue :: "string list \<Rightarrow> number" where
  "avgHue colors =
     jdiv (foldl (\<lambda>sum (h, s, l). jadd sum h) (Fin 0) (colorHSLs colors))
          (Fin (real (length (colorHSLs colors))))"

definition analyzeSkinTone :: "string list \<Rightarrow> SkinToneAnalysis" where
  "analyzeSkinTone colors =
     (let lightness = avgLightness colors;
          level =
            (if jge lightness (Fin 85) then SKIN_TONE_SCALE ! 0
             else if jge lightness (Fin 80) then SKIN_TONE_SCALE ! 1
             else if jge lightness (Fin 75) then SKIN_TONE_SCALE ! 2
             else if jge lightness (Fin 70) then SKIN_TONE_SCALE ! 3
             else if jge lightness (Fin 65) then SKIN_TONE_SCALE ! 4
             else if jge lightness (Fin 55) then SKIN_TONE_SCALE ! 5
             else if jge lightness (Fin 45) then SKIN_TONE_SCALE ! 6
             else if jge lightness (Fin 35) then SKIN_TONE_SCALE ! 7
             else if jge lightness (Fin 25) then SKIN_TONE_SCALE ! 8
             else SKIN_TONE_SCALE ! 9);
          hue = avgHue colors;
          (type, label) =
            (if jge hue (Fin 20) \<and> jle hue (Fin 50) then (warm, ''Golden/Yellow'')
             else if jge hue (Fin 300) \<or> jle hue (Fin 20) then (cool, ''Pink/Red'')
             else (neutral, ''Balanced''))
      in \<lparr>dominantColors = colors,
          skinToneType = type,
          undertone = label,
          skinToneLevel = level,
          outfitPalettes = generateOutfitPalettes type (level_number level),
          outfitExamples = generateOutfitExamples type (level_number level),
          recommendations = generateRecommendations type\<rparr>)"

section \<open>Auxiliary notions\<close>

text \<open>A number that is \<open>NaN\<close> or finite: what \<open>parseInt\<close> returns.\<close>

definition finOrNaN :: "number \<Rightarrow> bool" where
  "finOrNaN x = (x = NaN \<or> (\<exists>a. x = Fin a))"

text \<open>
  The lightness table as the specification words it: the level and its name, by the
  greatest of the thresholds 85, 80, 75, 70, 65, 55, 45, 35 and 25 that the average
  lightness reaches, and level 10 when it reaches none.
\<close>

definition specLightnessLevel :: "real \<Rightarrow> nat \<times> string" where
  "specLightnessLevel a =
     (if 85 \<le> a then (1, ''Porcelain'')
      else if 80 \<le> a then (2, ''Ivory'')
      else if 75 \<le> a then (3, ''Light Beige'')
      else if 70 \<le> a then (4, ''Warm Beige'')
      else if 65 \<le> a then (5, ''Golden Beige'')
      else if 55 \<le> a then (6, ''Tan'')
      else if 45 \<le> a then (7, ''Medium Brown'')
      else if 35 \<le> a then (8, ''Deep Brown'')
      else if 25 \<le> a then (9, ''Dark Espresso'')
      else (10, ''Ebony''))"

text \<open>A colour whose three channels are from 31 to 249: what the sampling filter lets
  through.\<close>

definition inGamut :: "rgb \<Rightarrow> bool" where
  "inGamut p = (case p of (r, g, b) \<Rightarrow>
     31 \<le> r \<and> r \<le> 249 \<and> 31 \<le> g \<and> g \<le> 249 \<and> 31 \<le> b \<and> b \<le> 249)"

definition clustersInGamut :: "rgb list list \<Rightarrow> bool" where
  "clustersInGamut clusters = (\<forall>cluster \<in> set clusters. \<forall>p \<in> set cluster. inGamut p)"




text \<open>The multiples of the least positive double, \<open>2\<^bsup>-1074\<^esup>\<close>: every double is one.\<close>

definition onGrid :: "real \<Rightarrow> bool" where
  "onGrid x = (\<exists>N :: int. x = of_int N * 2 powi (- 1074))"

section \<open>Rounding to binary64\<close>

lemma rte_spec:
  "\<bar>y - of_int (roundTiesToEven y)\<bar> < 1 / 2 \<or>
   (\<bar>y - of_int (roundTiesToEven y)\<bar> = 1 / 2 \<and> even (roundTiesToEven y))"
proof -
  define f where "f = \<lfloor>y\<rfloor>"
  have f: "of_int f \<le> y" "y < of_int f + 1"
    unfolding f_def by linarith+
  show ?thesis
    unfolding roundTiesToEven_def Let_def f_def [symmetric]
    using f by (auto simp: abs_if)
qed

lemma rte_eqI:
  assumes "\<bar>y - of_int n\<bar> < 1 / 2 \<or> (\<bar>y - of_int n\<bar> = 1 / 2 \<and> even n)"
  shows "roundTiesToEven y = n"
proof -
  define m where "m = roundTiesToEven y"
  have m: "\<bar>y - of_int m\<bar> < 1 / 2 \<or> (\<bar>y - of_int m\<bar> = 1 / 2 \<and> even m)"
    unfolding m_def by (rule rte_spec)
  have "\<bar>of_int m - of_int n :: real\<bar> \<le> 1"
    using m assms by linarith
  then have d: "\<bar>m - n\<bar> \<le> 1"
    by (metis of_int_1 of_int_abs of_int_diff of_int_le_iff)
  show ?thesis
  proof (rule ccontr)
    assume "roundTiesToEven y \<noteq> n"
    then have ne: "m \<noteq> n" by (simp add: m_def)
    with d have mn: "m = n + 1 \<or> m = n - 1" by linarith
    then have "\<bar>of_int m - of_int n :: real\<bar> = 1" by auto
    with m assms have "even m \<and> even n" by linarith
    with mn show False by auto
  qed
qed

lemma rte_of_int [simp]: "roundTiesToEven (of_int n) = n"
  by (rule rte_eqI) simp

lemma rte_0 [simp]: "roundTiesToEven 0 = 0"
  using rte_of_int [of 0] by simp

lemma rte_numeral [simp]: "roundTiesToEven (numeral n) = numeral n"
  using rte_of_int [of "numeral n"] by simp

lemma rte_minus: "roundTiesToEven (- y) = - roundTiesToEven y"
  by (rule rte_eqI) (use rte_spec [of y] in \<open>auto simp: abs_if\<close>)

lemma rte_mono:
  assumes "y \<le> z"
  shows "roundTiesToEven y \<le> roundTiesToEven z"
proof (rule ccontr)
  assume "\<not> roundTiesToEven y \<le> roundTiesToEven z"
  then have lt: "roundTiesToEven z + 1 \<le> roundTiesToEven y" by simp
  then have r: "of_int (roundTiesToEven z) + 1 \<le> (of_int (roundTiesToEven y) :: real)"
    by (metis of_int_1 of_int_add of_int_le_iff)
  from rte_spec [of y] rte_spec [of z] assms r
  have "y = z" by linarith
  with lt show False by simp
qed

lemma rte_error: "\<bar>of_int (roundTiesToEven y) - y\<bar> \<le> 1 / 2"
  using rte_spec [of y] by linarith


lemma two_powi_52: "(2 :: real) powi 52 = of_int (2 ^ 52)"
  by simp

lemma two_powi_53: "(2 :: real) powi 53 = of_int (2 ^ 53)"
  by simp

lemma two_powi_split: "(2 :: real) powi (a + b) = 2 powi a * 2 powi b"
  by (simp add: power_int_add)

lemma ulp_pos [simp]: "0 < ulp x"
  by (simp add: ulp_def)

lemma ulp_neq_0 [simp]: "ulp x \<noteq> 0"
  by (simp add: ulp_def)

lemma ulp_nonneg [simp]: "0 \<le> ulp x"
  by (simp add: ulp_def)

lemma binade_ge [simp]: "- 1022 \<le> binade x"
  by (simp add: binade_def)

lemma floor_log2:
  assumes "x \<noteq> 0"
  shows "2 powi \<lfloor>log 2 \<bar>x\<bar>\<rfloor> \<le> \<bar>x\<bar>" and "\<bar>x\<bar> < 2 powi (\<lfloor>log 2 \<bar>x\<bar>\<rfloor> + 1)"
proof -
  define k where "k = \<lfloor>log 2 \<bar>x\<bar>\<rfloor>"
  have pos: "0 < \<bar>x\<bar>" using assms by simp
  have "2 powr real_of_int k \<le> \<bar>x\<bar> \<and> \<bar>x\<bar> < 2 powr (real_of_int k + 1)"
    using floor_log_eq_powr_iff [OF pos, of 2 k] by (simp add: k_def)
  moreover have "(2 :: real) powr real_of_int k = 2 powi k"
    by (rule powr_real_of_int') simp_all
  moreover have "(2 :: real) powr (real_of_int k + 1) = 2 powi (k + 1)"
    using powr_real_of_int' [of 2 "k + 1"] by simp
  ultimately show "2 powi \<lfloor>log 2 \<bar>x\<bar>\<rfloor> \<le> \<bar>x\<bar>" and "\<bar>x\<bar> < 2 powi (\<lfloor>log 2 \<bar>x\<bar>\<rfloor> + 1)"
    by (simp_all add: k_def)
qed

lemma binade_upper:
  assumes "x \<noteq> 0"
  shows "\<bar>x\<bar> < 2 powi (binade x + 1)"
proof -
  have "\<bar>x\<bar> < 2 powi (\<lfloor>log 2 \<bar>x\<bar>\<rfloor> + 1)"
    by (rule floor_log2 [OF assms])
  also have "\<dots> \<le> 2 powi (binade x + 1)"
    by (rule power_int_increasing) (simp_all add: binade_def)
  finally show ?thesis .
qed

lemma binade_lower:
  assumes "x \<noteq> 0" "- 1022 < binade x"
  shows "2 powi binade x \<le> \<bar>x\<bar>"
proof -
  from assms(2) have "binade x = \<lfloor>log 2 \<bar>x\<bar>\<rfloor>"
    by (simp add: binade_def max_def split: if_splits)
  with floor_log2(1) [OF assms(1)] show ?thesis by simp
qed

lemma binade_eqI:
  assumes "2 powi e \<le> \<bar>x\<bar>" "\<bar>x\<bar> < 2 powi (e + 1)" "- 1022 \<le> e"
  shows "binade x = e"
proof -
  have pos: "0 < \<bar>x\<bar>"
    using assms(1) zero_less_power_int [of "2 :: real" e] by linarith
  have "(2 :: real) powr real_of_int e = 2 powi e"
    by (rule powr_real_of_int') simp_all
  moreover have "(2 :: real) powr (real_of_int e + 1) = 2 powi (e + 1)"
    using powr_real_of_int' [of 2 "e + 1"] by simp
  ultimately have "\<lfloor>log 2 \<bar>x\<bar>\<rfloor> = e"
    using floor_log_eq_powr_iff [OF pos, of 2 e] assms(1,2) by simp
  with assms(3) show ?thesis by (simp add: binade_def)
qed

lemma binade_subnormal:
  assumes "x \<noteq> 0" "\<bar>x\<bar> < 2 powi (- 1021)"
  shows "binade x = - 1022"
proof (rule ccontr)
  assume "binade x \<noteq> - 1022"
  with binade_ge [of x] have gt: "- 1022 < binade x" by linarith
  then have "(2 :: real) powi (- 1021) \<le> 2 powi binade x"
    by (intro power_int_increasing) simp_all
  also have "\<dots> \<le> \<bar>x\<bar>" by (rule binade_lower [OF assms(1) gt])
  finally show False using assms(2) by simp
qed

lemma binade_minus [simp]: "binade (- x) = binade x"
  by (simp add: binade_def)

lemma ulp_minus [simp]: "ulp (- x) = ulp x"
  by (simp add: ulp_def)

lemma binade_mono:
  assumes "x \<noteq> 0" "\<bar>x\<bar> \<le> \<bar>y\<bar>"
  shows "binade x \<le> binade y"
proof -
  have "log 2 \<bar>x\<bar> \<le> log 2 \<bar>y\<bar>"
    using assms by simp
  then have "\<lfloor>log 2 \<bar>x\<bar>\<rfloor> \<le> \<lfloor>log 2 \<bar>y\<bar>\<rfloor>"
    by (rule floor_mono)
  then show ?thesis by (simp add: binade_def)
qed

lemma round64_0 [simp]: "round64 0 = 0"
  by (simp add: round64_def)

lemma round64_minus: "round64 (- x) = - round64 x"
  by (simp add: round64_def rte_minus)

lemma round64_nonneg:
  assumes "0 \<le> x"
  shows "0 \<le> round64 x"
proof -
  have "0 \<le> x / ulp x"
    by (intro divide_nonneg_pos assms ulp_pos)
  from rte_mono [OF this] have "0 \<le> roundTiesToEven (x / ulp x)" by simp
  then show ?thesis unfolding round64_def by (intro mult_nonneg_nonneg) simp_all
qed

lemma ulp_scale:
  "ulp x * 2 ^ 53 = 2 powi (binade x + 1)" "ulp x * 2 ^ 52 = 2 powi binade x"
  using power_int_add [of "2 :: real" "binade x - 52" 53]
    power_int_add [of "2 :: real" "binade x - 52" 52]
  by (simp_all add: ulp_def add.commute)

lemma scaled_bounds:
  assumes "x \<noteq> 0"
  shows "\<bar>x\<bar> / ulp x < 2 ^ 53"
    and "- 1022 < binade x \<Longrightarrow> 2 ^ 52 \<le> \<bar>x\<bar> / ulp x"
proof -
  have "\<bar>x\<bar> < ulp x * 2 ^ 53"
    unfolding ulp_scale using binade_upper [OF assms] .
  then show "\<bar>x\<bar> / ulp x < 2 ^ 53"
    by (simp add: divide_less_eq mult.commute)
  assume "- 1022 < binade x"
  from binade_lower [OF assms this] have "ulp x * 2 ^ 52 \<le> \<bar>x\<bar>"
    unfolding ulp_scale .
  then show "2 ^ 52 \<le> \<bar>x\<bar> / ulp x"
    by (simp add: le_divide_eq mult.commute)
qed

lemma round64_upper:
  assumes "0 < x"
  shows "round64 x \<le> 2 powi (binade x + 1)"
proof -
  have "x / ulp x \<le> 2 ^ 53"
    using scaled_bounds(1) [of x] assms by simp
  from rte_mono [OF this] have "roundTiesToEven (x / ulp x) \<le> 2 ^ 53" by simp
  then have "of_int (roundTiesToEven (x / ulp x)) \<le> (2 ^ 53 :: real)"
    by (metis of_int_le_iff of_int_numeral of_int_power)
  then have "round64 x \<le> 2 ^ 53 * ulp x"
    unfolding round64_def by (rule mult_right_mono) simp
  also have "\<dots> = 2 powi (binade x + 1)"
    using ulp_scale(1) [of x] by (simp add: mult.commute)
  finally show ?thesis .
qed

lemma round64_lower:
  assumes "0 < x" "- 1022 < binade x"
  shows "2 powi binade x \<le> round64 x"
proof -
  have "2 ^ 52 \<le> x / ulp x"
    using scaled_bounds(2) [of x] assms by simp
  from rte_mono [OF this] have "2 ^ 52 \<le> roundTiesToEven (x / ulp x)" by simp
  then have "(2 ^ 52 :: real) \<le> of_int (roundTiesToEven (x / ulp x))"
    by (metis of_int_le_iff of_int_numeral of_int_power)
  then have "2 ^ 52 * ulp x \<le> round64 x"
    unfolding round64_def by (rule mult_right_mono) simp
  moreover have "2 ^ 52 * ulp x = 2 powi binade x"
    using ulp_scale(2) [of x] by (simp add: mult.commute)
  ultimately show ?thesis by simp
qed

lemma round64_mono_pos:
  assumes "0 < x" "x \<le> y"
  shows "round64 x \<le> round64 y"
proof (cases "binade x = binade y")
  case True
  then have u: "ulp y = ulp x" by (simp add: ulp_def)
  have "x / ulp x \<le> y / ulp x"
    using assms(2) by (simp add: divide_right_mono)
  from rte_mono [OF this] show ?thesis
    by (simp add: round64_def u)
next
  case False
  have "binade x \<le> binade y"
    by (rule binade_mono) (use assms in auto)
  with False have lt: "binade x < binade y" by simp
  have "round64 x \<le> 2 powi (binade x + 1)"
    by (rule round64_upper [OF assms(1)])
  also have "\<dots> \<le> 2 powi binade y"
    by (rule power_int_increasing) (use lt in simp_all)
  also have "\<dots> \<le> round64 y"
  proof (rule round64_lower)
    show "0 < y" using assms by simp
    show "- 1022 < binade y" using lt binade_ge [of x] by linarith
  qed
  finally show ?thesis .
qed

lemma round64_mono:
  assumes "x \<le> y"
  shows "round64 x \<le> round64 y"
proof -
  consider "0 < x" | "x \<le> 0" "0 \<le> y" | "y < 0" by linarith
  then show ?thesis
  proof cases
    case 1
    then show ?thesis by (rule round64_mono_pos [OF _ assms])
  next
    case 2
    have "round64 x = - round64 (- x)" by (simp add: round64_minus)
    moreover have "0 \<le> round64 (- x)" by (rule round64_nonneg) (use 2 in simp)
    moreover have "0 \<le> round64 y" by (rule round64_nonneg [OF 2(2)])
    ultimately show ?thesis by simp
  next
    case 3
    have "round64 (- y) \<le> round64 (- x)"
      by (rule round64_mono_pos) (use 3 assms in simp_all)
    then show ?thesis by (simp add: round64_minus)
  qed
qed

lemma round64_error: "\<bar>round64 x - x\<bar> \<le> ulp x / 2"
proof -
  have "\<bar>of_int (roundTiesToEven (x / ulp x)) - x / ulp x\<bar> \<le> 1 / 2"
    by (rule rte_error)
  then have "\<bar>of_int (roundTiesToEven (x / ulp x)) - x / ulp x\<bar> * ulp x \<le> 1 / 2 * ulp x"
    by (rule mult_right_mono) simp
  moreover have "\<bar>of_int (roundTiesToEven (x / ulp x)) - x / ulp x\<bar> * ulp x = \<bar>round64 x - x\<bar>"
  proof -
    have "\<bar>of_int (roundTiesToEven (x / ulp x)) - x / ulp x\<bar> * ulp x =
          \<bar>(of_int (roundTiesToEven (x / ulp x)) - x / ulp x) * ulp x\<bar>"
      by (simp add: abs_mult)
    also have "(of_int (roundTiesToEven (x / ulp x)) - x / ulp x) * ulp x = round64 x - x"
      by (simp add: round64_def left_diff_distrib)
    finally show ?thesis .
  qed
  ultimately show ?thesis by simp
qed


lemma round64_evalI:
  assumes k: "- 1074 \<le> k"
    and lo: "2 powi (k + 52) \<le> \<bar>x\<bar> \<or> k = - 1074"
    and hi: "\<bar>x\<bar> < 2 powi (k + 53)"
    and near: "\<bar>x / 2 powi k - of_int n\<bar> < 1 / 2 \<or>
               (\<bar>x / 2 powi k - of_int n\<bar> = 1 / 2 \<and> even n)"
  shows "round64 x = of_int n * 2 powi k"
proof (cases "x = 0")
  case True
  with near have "\<bar>real_of_int n\<bar> < 1" by auto
  then have "n = 0" by linarith
  with True show ?thesis by simp
next
  case False
  have "binade x = k + 52"
  proof (cases "2 powi (k + 52) \<le> \<bar>x\<bar>")
    case True
    show ?thesis
      by (rule binade_eqI) (use True hi k in \<open>simp_all add: add.assoc\<close>)
  next
    case no: False
    with lo have k': "k = - 1074" by simp
    have "binade x = - 1022"
      by (rule binade_subnormal [OF False]) (use hi k' in simp)
    with k' show ?thesis by simp
  qed
  then have u: "ulp x = 2 powi k" by (simp add: ulp_def)
  from near have "roundTiesToEven (x / ulp x) = n"
    unfolding u by (rule rte_eqI)
  then show ?thesis by (simp add: round64_def u)
qed

lemma round64_exact:
  assumes "\<bar>m\<bar> < 2 ^ 53" "- 1074 \<le> k"
  shows "round64 (of_int m * 2 powi k) = of_int m * 2 powi k"
proof (cases "m = 0")
  case True
  then show ?thesis by simp
next
  case False
  define x :: real where "x = of_int m * 2 powi k"
  define e where "e = binade x"
  have x0: "x \<noteq> 0" using False by (simp add: x_def)
  have ax: "\<bar>x\<bar> = \<bar>of_int m\<bar> * 2 powi k"
    by (simp add: x_def abs_mult)
  have "\<bar>real_of_int m\<bar> < 2 ^ 53"
    using assms(1) by (metis of_int_abs of_int_less_iff of_int_numeral of_int_power)
  then have "\<bar>x\<bar> < 2 ^ 53 * 2 powi k"
    unfolding ax by (intro mult_strict_right_mono) simp_all
  also have "2 ^ 53 * 2 powi k = (2 :: real) powi (k + 53)"
    using power_int_add [of "2 :: real" k 53] by simp
  finally have up: "\<bar>x\<bar> < 2 powi (k + 53)" .
  have le: "e \<le> k + 52"
  proof (rule ccontr)
    assume "\<not> e \<le> k + 52"
    then have gt: "k + 53 \<le> e" by simp
    with assms(2) have "- 1022 < e" by simp
    then have "2 powi e \<le> \<bar>x\<bar>"
      unfolding e_def by (intro binade_lower [OF x0])
    moreover have "(2 :: real) powi (k + 53) \<le> 2 powi e"
      by (rule power_int_increasing) (use gt in simp_all)
    ultimately show False using up by simp
  qed
  define t where "t = nat (k - (e - 52))"
  have t: "int t = k - (e - 52)" using le by (simp add: t_def)
  have "(2 :: real) powi k = 2 powi ((e - 52) + int t)"
    by (simp add: t)
  also have "\<dots> = 2 powi (e - 52) * 2 ^ t"
    by (subst power_int_add) simp_all
  finally have pk': "(2 :: real) powi k = ulp x * 2 ^ t"
    by (simp add: ulp_def e_def)
  define u where "u = ulp x"
  have u0: "u \<noteq> 0" by (simp add: u_def)
  have pk: "(2 :: real) powi k = u * 2 ^ t"
    using pk' by (simp add: u_def)
  have xu: "x = of_int (m * 2 ^ t) * u"
    by (simp add: x_def pk)
  then have "x / u = of_int (m * 2 ^ t)"
    using u0 by simp
  then have "roundTiesToEven (x / u) = m * 2 ^ t"
    by (simp only: rte_of_int)
  then have "round64 x = of_int (m * 2 ^ t) * u"
    by (simp add: round64_def u_def)
  with xu have "round64 x = x" by simp
  then show ?thesis by (simp only: x_def)
qed

lemma round64_of_int:
  assumes "\<bar>n\<bar> < 2 ^ 53"
  shows "round64 (of_int n) = of_int n"
  using round64_exact [OF assms, of 0] by simp

lemma round64_numeral [simp]:
  "numeral w < (2 :: int) ^ 53 \<Longrightarrow> round64 (numeral w) = numeral w"
  using round64_of_int [of "numeral w"] by simp

lemma round64_1 [simp]: "round64 1 = 1"
  using round64_of_int [of 1] by simp
lemma onGrid_round64: "onGrid (round64 x)"
proof -
  define t where "t = nat (binade x + 1022)"
  have "0 \<le> binade x + 1022" using binade_ge [of x] by linarith
  then have t: "int t = binade x + 1022" by (simp add: t_def)
  have "ulp x = 2 powi (- 1074 + int t)"
    by (simp add: ulp_def t)
  also have "\<dots> = 2 powi (- 1074) * 2 ^ t"
    by (subst power_int_add) simp_all
  finally have "round64 x = of_int (roundTiesToEven (x / ulp x) * 2 ^ t) * 2 powi (- 1074)"
    by (simp add: round64_def)
  then show ?thesis unfolding onGrid_def by blast
qed

lemma onGrid_diff: "onGrid a \<Longrightarrow> onGrid b \<Longrightarrow> onGrid (a - b)"
  unfolding onGrid_def
proof (elim exE)
  fix M N :: int
  assume "a = of_int M * 2 powi (- 1074)" "b = of_int N * 2 powi (- 1074)"
  then have "a - b = of_int (M - N) * 2 powi (- 1074)"
    by (simp add: left_diff_distrib)
  then show "\<exists>N :: int. a - b = of_int N * 2 powi (- 1074)" by blast
qed

lemma onGrid_add: "onGrid a \<Longrightarrow> onGrid b \<Longrightarrow> onGrid (a + b)"
  unfolding onGrid_def
proof (elim exE)
  fix M N :: int
  assume "a = of_int M * 2 powi (- 1074)" "b = of_int N * 2 powi (- 1074)"
  then have "a + b = of_int (M + N) * 2 powi (- 1074)"
    by (simp add: distrib_right)
  then show "\<exists>N :: int. a + b = of_int N * 2 powi (- 1074)" by blast
qed

lemma round64_least: "round64 (2 powi (- 1074)) = 2 powi (- 1074)"
  using round64_exact [of 1 "- 1074"] by simp

lemma round64_neq_0:
  assumes "onGrid x" "x \<noteq> 0"
  shows "round64 x \<noteq> 0"
proof -
  from assms(1) obtain N :: int where N: "x = of_int N * 2 powi (- 1074)"
    unfolding onGrid_def by blast
  with assms(2) have "N \<noteq> 0" by auto
  then have "1 \<le> \<bar>N\<bar>" by simp
  then have "1 \<le> \<bar>real_of_int N\<bar>" by (metis of_int_1_le_iff of_int_abs)
  then have "1 * 2 powi (- 1074) \<le> \<bar>real_of_int N\<bar> * 2 powi (- 1074)"
    by (rule mult_right_mono) simp
  then have small: "2 powi (- 1074) \<le> \<bar>x\<bar>"
    by (simp add: N abs_mult)
  show ?thesis
  proof (cases "0 < x")
    case True
    with small have "round64 (2 powi (- 1074)) \<le> round64 x"
      by (intro round64_mono) simp
    then have "(2 :: real) powi (- 1074) \<le> round64 x"
      by (simp only: round64_least)
    moreover have "(0 :: real) < 2 powi (- 1074)" by simp
    ultimately show ?thesis by linarith
  next
    case False
    with assms(2) small have "round64 (2 powi (- 1074)) \<le> round64 (- x)"
      by (intro round64_mono) simp
    then have "(2 :: real) powi (- 1074) \<le> round64 (- x)"
      by (simp only: round64_least)
    moreover have "(0 :: real) < 2 powi (- 1074)" by simp
    ultimately show ?thesis by (simp add: round64_minus)
  qed
qed

lemma round64_idem: "round64 (round64 x) = round64 x"
proof (cases "x = 0")
  case True
  then show ?thesis by simp
next
  case False
  define n where "n = roundTiesToEven (x / ulp x)"
  have r: "round64 x = of_int n * 2 powi (binade x - 52)"
    by (simp add: round64_def n_def ulp_def)
  have "\<bar>x\<bar> / ulp x < 2 ^ 53" by (rule scaled_bounds(1) [OF False])
  then have "\<bar>x / ulp x\<bar> \<le> 2 ^ 53" by simp
  then have "- (2 ^ 53) \<le> x / ulp x" "x / ulp x \<le> 2 ^ 53" by linarith+
  from rte_mono [OF this(1)] rte_mono [OF this(2)]
  have "- (2 ^ 53) \<le> n" "n \<le> 2 ^ 53"
    by (simp_all add: n_def rte_minus)
  then consider "\<bar>n\<bar> < 2 ^ 53" | "n = 2 ^ 53" | "n = - (2 ^ 53)" by linarith
  then show ?thesis
  proof cases
    case 1
    show ?thesis unfolding r
      by (rule round64_exact [OF 1]) (use binade_ge [of x] in linarith)
  next
    case 2
    have "round64 x = of_int 1 * 2 powi ((binade x - 52) + 53)"
      unfolding r 2 by (subst power_int_add) simp_all
    moreover have "round64 (of_int 1 * 2 powi ((binade x - 52) + 53)) =
                   of_int 1 * 2 powi ((binade x - 52) + 53)"
      by (rule round64_exact) (use binade_ge [of x] in \<open>simp, linarith\<close>)
    ultimately show ?thesis by simp
  next
    case 3
    have "round64 x = of_int (- 1) * 2 powi ((binade x - 52) + 53)"
      unfolding r 3 by (subst power_int_add) simp_all
    moreover have "round64 (of_int (- 1) * 2 powi ((binade x - 52) + 53)) =
                   of_int (- 1) * 2 powi ((binade x - 52) + 53)"
      by (rule round64_exact) (use binade_ge [of x] in \<open>simp, linarith\<close>)
    ultimately show ?thesis by simp
  qed
qed

lemma round64_half [simp]: "round64 (1 / 2) = 1 / 2"
  using round64_exact [of 1 "- 1"] by (simp add: power_int_minus)

lemma round64_abs_le:
  assumes "\<bar>x\<bar> \<le> c" "round64 c = c"
  shows "\<bar>round64 x\<bar> \<le> c"
proof -
  have "- c \<le> x" "x \<le> c" using assms(1) by linarith+
  from round64_mono [OF this(1)] round64_mono [OF this(2)] assms(2)
  show ?thesis by (simp add: round64_minus abs_le_iff)
qed

lemma round64_2_1023: "round64 (2 ^ 1023) = 2 ^ 1023"
  using round64_exact [of 1 1023] by simp

lemma number64_Fin: "\<bar>x\<bar> \<le> 2 ^ 1023 \<Longrightarrow> number64 x = Fin (round64 x)"
  using round64_abs_le [OF _ round64_2_1023, of x] by (simp add: number64_def Let_def)

lemma number64_0 [simp]: "number64 0 = Fin 0"
  by (simp add: number64_def)

lemma number64_small: "\<bar>x\<bar> \<le> 1000 \<Longrightarrow> number64 x = Fin (round64 x)"
  by (rule number64_Fin) simp

lemma jadd_Fin: "\<bar>a + b\<bar> \<le> 1000 \<Longrightarrow> jadd (Fin a) (Fin b) = Fin (round64 (a + b))"
  by (simp add: number64_small)

lemma jsub_Fin: "\<bar>a - b\<bar> \<le> 1000 \<Longrightarrow> jsub (Fin a) (Fin b) = Fin (round64 (a - b))"
  by (simp add: jsub_def number64_small)

lemma jmul_Fin: "\<bar>a * b\<bar> \<le> 1000 \<Longrightarrow> jmul (Fin a) (Fin b) = Fin (round64 (a * b))"
  by (simp add: number64_small)

lemma jdiv_Fin: "b \<noteq> 0 \<Longrightarrow> \<bar>a / b\<bar> \<le> 1000 \<Longrightarrow> jdiv (Fin a) (Fin b) = Fin (round64 (a / b))"
  by (simp add: number64_small)

lemma round64_error_unit:
  assumes "\<bar>x\<bar> \<le> 1"
  shows "\<bar>round64 x - x\<bar> \<le> 1 / 2 ^ 53"
proof (cases "x = 0")
  case True
  then show ?thesis by simp
next
  case False
  have b1: "binade 1 = 0" by (rule binade_eqI) simp_all
  have "binade x \<le> binade 1" using assms False by (intro binade_mono) simp_all
  then have "binade x \<le> 0" using b1 by simp
  then have "ulp x \<le> 2 powi (- 52)"
    unfolding ulp_def by (intro power_int_increasing) simp_all
  then have "ulp x / 2 \<le> 1 / 2 ^ 53" by (simp add: power_int_minus field_simps)
  with round64_error [of x] show ?thesis by linarith
qed


lemma round64_consts [simp]:
  "round64 (- 1) = - 1"
  "round64 (- (1 / 512)) = - (1 / 512)"
  "round64 (6143 / 1024) = 6143 / 1024"
  "round64 (8191 / 8192) = 8191 / 8192"
  "round64 (368595 / 1024) = 368595 / 1024"
  "round64 (7 / 8) = 7 / 8"
proof -
  show "round64 (- 1) = - 1" by (simp add: round64_minus)
  show "round64 (- (1 / 512)) = - (1 / 512)"
    using round64_exact [of 1 "- 9"] by (simp add: round64_minus power_int_minus)
  show "round64 (6143 / 1024) = 6143 / 1024"
    using round64_exact [of 6143 "- 10"] by (simp add: power_int_minus)
  show "round64 (8191 / 8192) = 8191 / 8192"
    using round64_exact [of 8191 "- 13"] by (simp add: power_int_minus)
  show "round64 (368595 / 1024) = 368595 / 1024"
    using round64_exact [of 368595 "- 10"] by (simp add: power_int_minus)
  show "round64 (7 / 8) = 7 / 8"
    using round64_exact [of 7 "- 3"] by (simp add: power_int_minus)
qed

lemma round64_pos:
  assumes "onGrid x" "0 < x"
  shows "0 < round64 x"
  using round64_neq_0 [OF assms(1)] round64_nonneg [of x] assms(2) by force

section \<open>The conversions\<close>

lemma Math_max3: "Math_max [Fin a, Fin b, Fin c] = Fin (max (max a b) c)"
  by (simp add: Math_max_def jmax_def max_def)

lemma Math_min3: "Math_min [Fin a, Fin b, Fin c] = Fin (min (min a b) c)"
  by (simp add: Math_min_def jmin_def min_def)

text \<open>The quotient of a difference of two channels by the rounded range.\<close>

lemma hue_quotient:
  assumes d: "d = round64 (mx - mn)" "0 < d" "d \<le> 2"
    and u: "mn \<le> u" "u \<le> mx" and v: "mn \<le> v" "v \<le> mx"
    and range: "mx - mn \<le> 2"
  shows "\<exists>q. jdiv (jsub (Fin u) (Fin v)) (Fin d) = Fin q \<and> \<bar>q\<bar> \<le> 1 \<and> round64 q = q \<and>
           (u < v \<longrightarrow> q \<le> 0) \<and> (v \<le> u \<longrightarrow> 0 \<le> q) \<and>
           (u - v \<le> - (1 / 512) \<longrightarrow> q \<le> - (1 / 1024))"
proof -
  define x where "x = round64 (u - v)"
  define q where "q = round64 (x / d)"
  have "u - v \<le> mx - mn" "- (mx - mn) \<le> u - v"
    using u v by linarith+
  from round64_mono [OF this(1)] round64_mono [OF this(2)]
  have x: "x \<le> d" "- d \<le> x"
    unfolding round64_minus by (simp_all add: x_def d(1))
  have "\<bar>u - v\<bar> \<le> 1000" using u v range by linarith
  then have sub: "jsub (Fin u) (Fin v) = Fin x"
    by (simp add: jsub_Fin x_def)
  have xd: "- 1 \<le> x / d" "x / d \<le> 1"
    using x d(2) by (simp_all add: le_divide_eq divide_le_eq)
  have dn: "d \<noteq> 0" using d(2) by simp
  have "\<bar>x / d\<bar> \<le> 1000" using xd by linarith
  from jdiv_Fin [OF dn this] have quo: "jdiv (Fin x) (Fin d) = Fin q"
    by (simp only: q_def)
  have q1: "\<bar>q\<bar> \<le> 1"
    unfolding q_def by (rule round64_abs_le) (use xd in simp_all)
  have neg: "q \<le> 0" if "u < v"
  proof -
    from that have "u - v \<le> 0" by simp
    from round64_mono [OF this] have "x \<le> 0" by (simp add: x_def)
    then have "x / d \<le> 0" using d(2) by (simp add: divide_le_0_iff)
    from round64_mono [OF this] show ?thesis by (simp add: q_def)
  qed
  have pos: "0 \<le> q" if "v \<le> u"
  proof -
    from that have "0 \<le> u - v" by simp
    from round64_mono [OF this] have "0 \<le> x" by (simp add: x_def)
    then have "0 \<le> x / d" using d(2) by simp
    from round64_mono [OF this] show ?thesis by (simp add: q_def)
  qed
  have far: "q \<le> - (1 / 1024)" if "u - v \<le> - (1 / 512)"
  proof -
    from round64_mono [OF that] have x512: "x \<le> - (1 / 512)" by (simp add: x_def)
    have "x / d \<le> - (1 / 1024)"
    proof -
      have "x * 1024 \<le> - 2" using x512 by simp
      also have "\<dots> \<le> - d" using d(3) by simp
      finally have "x \<le> - (1 / 1024) * d" by simp
      then show ?thesis using d(2) by (simp add: divide_le_eq)
    qed
    from round64_mono [OF this] have "q \<le> round64 (- (1 / 1024))" by (simp add: q_def)
    also have "round64 (- (1 / 1024)) = - (1 / 1024)"
      using round64_exact [of 1 "- 10"] by (simp add: round64_minus power_int_minus)
    finally show ?thesis .
  qed
  have "round64 q = q" by (simp add: q_def round64_idem)
  with sub quo q1 neg pos far show ?thesis by auto
qed

lemma channel_gap:
  fixes g b :: real
  assumes g: "\<bar>g\<bar> \<le> 255" "g \<in> \<int>" and b: "\<bar>b\<bar> \<le> 255" "b \<in> \<int>"
    and lt: "round64 (g / 255) < round64 (b / 255)"
  shows "round64 (g / 255) - round64 (b / 255) \<le> - (1 / 512)"
proof -
  define e :: real where "e = 1 / 2 ^ 53"
  have "g < b"
  proof (rule ccontr)
    assume "\<not> g < b"
    then have "b / 255 \<le> g / 255" by simp
    from round64_mono [OF this] lt show False by simp
  qed
  moreover from g(2) b(2) obtain i j :: int where "g = of_int i" "b = of_int j"
    by (auto elim!: Ints_cases)
  ultimately have gap: "g + 1 \<le> b"
    by (metis of_int_less_iff zless_imp_add1_zle of_int_le_iff of_int_add of_int_1)
  have "\<bar>g / 255\<bar> \<le> 1" "\<bar>b / 255\<bar> \<le> 1"
    using g(1) b(1) by simp_all
  from round64_error_unit [OF this(1)] round64_error_unit [OF this(2)]
  have "\<bar>round64 (g / 255) - g / 255\<bar> \<le> e" "\<bar>round64 (b / 255) - b / 255\<bar> \<le> e"
    by (simp_all only: e_def)
  then have "round64 (g / 255) - round64 (b / 255) \<le> g / 255 - b / 255 + 2 * e"
    by linarith
  moreover have "g / 255 - b / 255 \<le> - (1 / 255)"
    using gap by simp
  moreover have "2 * e \<le> 1 / 255 - 1 / 512"
    by (simp add: e_def)
  ultimately show ?thesis by linarith
qed

text \<open>
  The conversion of three finite channels of magnitude at most 255, the negative ones
  included (\<open>parseInt\<close> reads a sign): every intermediate result is bounded, so that none
  overflows; the range is a positive double, so that no division is by zero; rounding is
  monotone, so that the bounds of the exact quotients carry over to the rounded ones.
\<close>

lemma rgbToHsl_Fin:
  fixes r g b :: real
  assumes r: "\<bar>r\<bar> \<le> 255" and g: "\<bar>g\<bar> \<le> 255" and b: "\<bar>b\<bar> \<le> 255"
  shows "\<exists>h s l. rgbToHsl (Fin r) (Fin g) (Fin b) = (Fin h, s, Fin l) \<and>
           0 \<le> h \<and> h \<le> 360 \<and> round64 h = h \<and> \<bar>l\<bar> \<le> 100 \<and> round64 l = l \<and>
           (0 \<le> r \<and> 0 \<le> g \<and> 0 \<le> b \<longrightarrow>
              0 \<le> l \<and> (\<exists>S. s = Fin S \<and> 0 \<le> S \<and> S \<le> 100)) \<and>
           (r \<in> \<int> \<and> g \<in> \<int> \<and> b \<in> \<int> \<longrightarrow> h < 360)"
proof -
  define R G B where "R = round64 (r / 255)" and "G = round64 (g / 255)"
    and "B = round64 (b / 255)"
  define mx mn where "mx = max (max R G) B" and "mn = min (min R G) B"
  define sm where "sm = round64 (mx + mn)"
  define L0 where "L0 = round64 (sm / 2)"
  define L where "L = round64 (L0 * 100)"
  define nonneg where "nonneg = (0 \<le> r \<and> 0 \<le> g \<and> 0 \<le> b)"
  define ints where "ints = (r \<in> \<int> \<and> g \<in> \<int> \<and> b \<in> \<int>)"
  have c: "jdiv (Fin x) (Fin 255) = Fin (round64 (x / 255)) \<and> \<bar>round64 (x / 255)\<bar> \<le> 1 \<and>
           (0 \<le> x \<longrightarrow> 0 \<le> round64 (x / 255))" if "\<bar>x\<bar> \<le> 255" for x :: real
  proof (intro conjI impI)
    show "jdiv (Fin x) (Fin 255) = Fin (round64 (x / 255))"
    proof (rule jdiv_Fin)
      show "(255 :: real) \<noteq> 0" by simp
      from that show "\<bar>x / 255\<bar> \<le> 1000" by simp
    qed
    from that have "\<bar>x / 255\<bar> \<le> 1" by simp
    then show "\<bar>round64 (x / 255)\<bar> \<le> 1" by (rule round64_abs_le) simp
    assume "0 \<le> x"
    then have "0 \<le> x / 255" by simp
    from round64_mono [OF this] show "0 \<le> round64 (x / 255)" by simp
  qed
  have chan: "jdiv (Fin r) (Fin 255) = Fin R" "jdiv (Fin g) (Fin 255) = Fin G"
    "jdiv (Fin b) (Fin 255) = Fin B"
    using c [OF r] c [OF g] c [OF b] by (simp_all add: R_def G_def B_def)
  have RGB1: "\<bar>R\<bar> \<le> 1" "\<bar>G\<bar> \<le> 1" "\<bar>B\<bar> \<le> 1"
    using c [OF r] c [OF g] c [OF b] by (simp_all add: R_def G_def B_def)
  have RGB0: "0 \<le> R" "0 \<le> G" "0 \<le> B" if nonneg
    using that c [OF r] c [OF g] c [OF b] by (simp_all add: R_def G_def B_def nonneg_def)
  have ext: "Math_max [Fin R, Fin G, Fin B] = Fin mx" "Math_min [Fin R, Fin G, Fin B] = Fin mn"
    by (simp_all add: Math_max3 Math_min3 mx_def mn_def)
  have between: "mn \<le> R" "R \<le> mx" "mn \<le> G" "G \<le> mx" "mn \<le> B" "B \<le> mx"
    by (simp_all add: mx_def mn_def)
  have m1: "\<bar>mx\<bar> \<le> 1" "\<bar>mn\<bar> \<le> 1"
    using RGB1 by (simp_all add: mx_def mn_def max_def min_def)
  have m0: "0 \<le> mx" "0 \<le> mn" if nonneg
    using RGB0 [OF that] by (simp_all add: mx_def mn_def)
  have grid: "onGrid mx" "onGrid mn"
    by (simp_all add: mx_def mn_def max_def min_def R_def G_def B_def onGrid_round64)
  have last: "mx \<noteq> R \<Longrightarrow> mx \<noteq> G \<Longrightarrow> mx = B"
    by (auto simp: mx_def max_def split: if_splits)
  have "\<bar>mx + mn\<bar> \<le> 2" using m1 by linarith
  then have sm2: "\<bar>sm\<bar> \<le> 2"
    unfolding sm_def by (rule round64_abs_le) simp
  have add: "jadd (Fin mx) (Fin mn) = Fin sm"
    unfolding sm_def by (rule jadd_Fin) (use m1 in linarith)
  have "\<bar>sm / 2\<bar> \<le> 1" using sm2 by simp
  then have L01: "\<bar>L0\<bar> \<le> 1"
    unfolding L0_def by (rule round64_abs_le) simp
  have half: "jdiv (Fin sm) (Fin 2) = Fin L0"
    unfolding L0_def by (rule jdiv_Fin) (use sm2 in simp_all)
  have light: "jdiv (jadd (Fin mx) (Fin mn)) (Fin 2) = Fin L0"
    by (simp only: add half)
  have "\<bar>L0 * 100\<bar> \<le> 100" using L01 by (simp add: abs_mult)
  then have L100: "\<bar>L\<bar> \<le> 100"
    unfolding L_def by (rule round64_abs_le) simp
  have lmul: "jmul (Fin L0) (Fin 100) = Fin L"
    unfolding L_def by (rule jmul_Fin) (use L01 in \<open>simp add: abs_mult\<close>)
  have Lidem: "round64 L = L"
    by (simp add: L_def round64_idem)
  have Lpos: "0 \<le> L" if nonneg
  proof -
    from m0 [OF that] have "0 \<le> mx + mn" by simp
    from round64_mono [OF this] have "0 \<le> sm" by (simp add: sm_def)
    then have "0 \<le> sm / 2" by simp
    from round64_mono [OF this] have "0 \<le> L0" by (simp add: L0_def)
    then have "0 \<le> L0 * 100" by simp
    from round64_mono [OF this] show ?thesis by (simp add: L_def)
  qed
  show ?thesis
  proof (cases "mx = mn")
    case True
    then have "rgbToHsl (Fin r) (Fin g) (Fin b) = (Fin 0, Fin 0, Fin L)"
      unfolding rgbToHsl_def Let_def chan ext light lmul by simp
    with L100 Lidem Lpos show ?thesis by (simp add: nonneg_def)
  next
    case False
    define d where "d = round64 (mx - mn)"
    define sterm where "sterm =
      (if jgt (Fin L0) (Fin (1 / 2))
       then jdiv (jsub (Fin mx) (Fin mn)) (jsub (jsub (Fin 2) (Fin mx)) (Fin mn))
       else jdiv (jsub (Fin mx) (Fin mn)) (jadd (Fin mx) (Fin mn)))"
    define hterm where "hterm =
      (if jeq (Fin mx) (Fin R)
       then jadd (jdiv (jsub (Fin G) (Fin B)) (jsub (Fin mx) (Fin mn)))
              (if jlt (Fin G) (Fin B) then Fin 6 else Fin 0)
       else if jeq (Fin mx) (Fin G)
       then jadd (jdiv (jsub (Fin B) (Fin R)) (jsub (Fin mx) (Fin mn))) (Fin 2)
       else if jeq (Fin mx) (Fin B)
       then jadd (jdiv (jsub (Fin R) (Fin G)) (jsub (Fin mx) (Fin mn))) (Fin 4)
       else Fin 0)"
    have neq: "jeq (Fin mx) (Fin mn) = False"
      using False by simp
    have eq: "rgbToHsl (Fin r) (Fin g) (Fin b) =
        (jmul (jdiv hterm (Fin 6)) (Fin 360), jmul sterm (Fin 100), Fin L)"
      unfolding rgbToHsl_def Let_def chan ext light lmul neq hterm_def sterm_def by simp
    have lt: "mn < mx"
      using False between by linarith
    have range: "mx - mn \<le> 2"
      using m1 by linarith
    have "onGrid (mx - mn)" "0 < mx - mn"
      using grid lt by (simp_all add: onGrid_diff)
    then have d0: "0 < d"
      unfolding d_def by (rule round64_pos)
    have d2: "d \<le> 2"
      using round64_mono [OF range] by (simp add: d_def)
    have dsub: "jsub (Fin mx) (Fin mn) = Fin d"
      unfolding d_def by (rule jsub_Fin) (use m1 in linarith)
    note quot = hue_quotient [OF d_def d0 d2 _ _ _ _ range]
    have ht: "hterm =
      (if mx = R
       then jadd (jdiv (jsub (Fin G) (Fin B)) (Fin d)) (if G < B then Fin 6 else Fin 0)
       else if mx = G then jadd (jdiv (jsub (Fin B) (Fin R)) (Fin d)) (Fin 2)
       else if mx = B then jadd (jdiv (jsub (Fin R) (Fin G)) (Fin d)) (Fin 4)
       else Fin 0)"
      unfolding hterm_def dsub by simp
    have hue: "\<exists>h1. hterm = Fin h1 \<and> 0 \<le> h1 \<and> h1 \<le> 6 \<and> (ints \<longrightarrow> h1 \<le> 6143 / 1024)"
    proof (cases "mx = R")
      case True
      from quot [OF between(3,4,5,6)] obtain q where
        q: "jdiv (jsub (Fin G) (Fin B)) (Fin d) = Fin q" "\<bar>q\<bar> \<le> 1" "round64 q = q"
          "G < B \<longrightarrow> q \<le> 0" "B \<le> G \<longrightarrow> 0 \<le> q"
          "G - B \<le> - (1 / 512) \<longrightarrow> q \<le> - (1 / 1024)"
        by blast
      show ?thesis
      proof (cases "G < B")
        case lt: True
        have "jadd (Fin q) (Fin 6) = Fin (round64 (q + 6))"
          by (rule jadd_Fin) (use q(2) in linarith)
        then have h: "hterm = Fin (round64 (q + 6))"
          using True lt by (simp add: ht q(1) del: jadd.simps)
        have "5 \<le> q + 6" "q + 6 \<le> 6"
          using q(2,4) lt by linarith+
        from round64_mono [OF this(1)] round64_mono [OF this(2)]
        have bd: "5 \<le> round64 (q + 6)" "round64 (q + 6) \<le> 6" by simp_all
        have "round64 (q + 6) \<le> 6143 / 1024" if ints
        proof -
          from that lt have "G - B \<le> - (1 / 512)"
            unfolding G_def B_def ints_def using g b by (intro channel_gap) simp_all
          with q(6) have "q + 6 \<le> 6143 / 1024" by simp
          from round64_mono [OF this] show ?thesis by simp
        qed
        with h bd show ?thesis by auto
      next
        case ge: False
        have "jadd (Fin q) (Fin 0) = Fin q"
          using q(2,3) jadd_Fin [of q 0] by simp
        then have h: "hterm = Fin q"
          using True ge by (simp add: ht q(1) del: jadd.simps)
        from q(2,5) ge have "0 \<le> q" "q \<le> 1" by simp_all
        with h show ?thesis by auto
      qed
    next
      case nR: False
      show ?thesis
      proof (cases "mx = G")
        case True
        from quot [OF between(5,6,1,2)] obtain q where
          q: "jdiv (jsub (Fin B) (Fin R)) (Fin d) = Fin q" "\<bar>q\<bar> \<le> 1"
          by blast
        have "jadd (Fin q) (Fin 2) = Fin (round64 (q + 2))"
          by (rule jadd_Fin) (use q(2) in linarith)
        then have h: "hterm = Fin (round64 (q + 2))"
          using nR True by (simp add: ht q(1) del: jadd.simps)
        have "1 \<le> q + 2" "q + 2 \<le> 3"
          using q(2) by linarith+
        from round64_mono [OF this(1)] round64_mono [OF this(2)]
        have "1 \<le> round64 (q + 2)" "round64 (q + 2) \<le> 3" by simp_all
        with h show ?thesis by auto
      next
        case nG: False
        with nR last have mB: "mx = B" by simp
        from quot [OF between(1,2,3,4)] obtain q where
          q: "jdiv (jsub (Fin R) (Fin G)) (Fin d) = Fin q" "\<bar>q\<bar> \<le> 1"
          by blast
        have "jadd (Fin q) (Fin 4) = Fin (round64 (q + 4))"
          by (rule jadd_Fin) (use q(2) in linarith)
        then have h: "hterm = Fin (round64 (q + 4))"
          using nR nG mB by (simp add: ht q(1) del: jadd.simps)
        have "3 \<le> q + 4" "q + 4 \<le> 5"
          using q(2) by linarith+
        from round64_mono [OF this(1)] round64_mono [OF this(2)]
        have "3 \<le> round64 (q + 4)" "round64 (q + 4) \<le> 5" by simp_all
        with h show ?thesis by auto
      qed
    qed
    then obtain h1 where h1: "hterm = Fin h1" "0 \<le> h1" "h1 \<le> 6" "ints \<longrightarrow> h1 \<le> 6143 / 1024"
      by blast
    define h2 where "h2 = round64 (h1 / 6)"
    define H where "H = round64 (h2 * 360)"
    have "0 \<le> h1 / 6" "h1 / 6 \<le> 1" using h1(2,3) by simp_all
    from round64_mono [OF this(1)] round64_mono [OF this(2)]
    have h2b: "0 \<le> h2" "h2 \<le> 1" by (simp_all add: h2_def)
    have h2eq: "jdiv (Fin h1) (Fin 6) = Fin h2"
      unfolding h2_def by (rule jdiv_Fin) (use h1(2,3) in simp_all)
    have "0 \<le> h2 * 360" "h2 * 360 \<le> 360" using h2b by simp_all
    from round64_mono [OF this(1)] round64_mono [OF this(2)]
    have Hb: "0 \<le> H" "H \<le> 360" by (simp_all add: H_def)
    have Heq: "jmul (Fin h2) (Fin 360) = Fin H"
      unfolding H_def by (rule jmul_Fin) (use h2b in simp)
    have Hidem: "round64 H = H"
      by (simp add: H_def round64_idem)
    have Hint: "H < 360" if ints
    proof -
      from that h1(4) have "h1 / 6 \<le> 8191 / 8192" by simp
      from round64_mono [OF this] have "h2 \<le> 8191 / 8192" by (simp add: h2_def)
      then have "h2 * 360 \<le> 368595 / 1024" by simp
      from round64_mono [OF this] have "H \<le> 368595 / 1024" by (simp add: H_def)
      then show ?thesis by simp
    qed
    have sat: "\<exists>S. jmul sterm (Fin 100) = Fin S \<and> 0 \<le> S \<and> S \<le> 100" if nn: nonneg
    proof -
      have mx1: "mx \<le> 1" using m1 by linarith
      have den: "\<exists>S0. jdiv (Fin d) (Fin e) = Fin S0 \<and> 0 \<le> S0 \<and> S0 \<le> 1" if "d \<le> e" for e
      proof -
        from that d0 have e0: "e \<noteq> 0" by simp
        have q: "0 \<le> d / e" "d / e \<le> 1" using that d0 by simp_all
        then have "\<bar>d / e\<bar> \<le> 1000" by linarith
        from jdiv_Fin [OF e0 this] round64_mono [OF q(1)] round64_mono [OF q(2)]
        show ?thesis by simp
      qed
      have "\<exists>S0. sterm = Fin S0 \<and> 0 \<le> S0 \<and> S0 \<le> 1"
      proof (cases "1 / 2 < L0")
        case True
        define t where "t = round64 (2 - mx)"
        define e where "e = round64 (t - mn)"
        have "1 \<le> 2 - mx" "2 - mx \<le> 2" using mx1 m0 [OF nn] by linarith+
        from round64_mono [OF this(1)] round64_mono [OF this(2)]
        have t: "1 \<le> t" "t \<le> 2" by (simp_all add: t_def)
        have s1: "jsub (Fin 2) (Fin mx) = Fin t"
          unfolding t_def by (rule jsub_Fin) (use m1 in linarith)
        have s2: "jsub (Fin t) (Fin mn) = Fin e"
          unfolding e_def by (rule jsub_Fin) (use m1 t in linarith)
        have "mx - mn \<le> t - mn" using t mx1 by linarith
        from round64_mono [OF this] have "d \<le> e" by (simp add: d_def e_def)
        from den [OF this] True show ?thesis
          by (simp add: sterm_def jgt_def dsub s1 s2)
      next
        case False
        have "mx - mn \<le> mx + mn" using m0 [OF nn] by linarith
        from round64_mono [OF this] have "d \<le> sm" by (simp add: d_def sm_def)
        from den [OF this] False show ?thesis
          by (simp add: sterm_def jgt_def dsub add del: jadd.simps)
      qed
      then obtain S0 where S0: "sterm = Fin S0" "0 \<le> S0" "S0 \<le> 1" by blast
      have "0 \<le> S0 * 100" "S0 * 100 \<le> 100" using S0(2,3) by simp_all
      from round64_mono [OF this(1)] round64_mono [OF this(2)]
      have "0 \<le> round64 (S0 * 100)" "round64 (S0 * 100) \<le> 100" by simp_all
      moreover have "jmul (Fin S0) (Fin 100) = Fin (round64 (S0 * 100))"
        by (rule jmul_Fin) (use S0(2,3) in simp)
      ultimately show ?thesis using S0(1) by simp
    qed
    have "rgbToHsl (Fin r) (Fin g) (Fin b) = (Fin H, jmul sterm (Fin 100), Fin L)"
      by (simp only: eq h1(1) h2eq Heq)
    with Hb Hidem Hint L100 Lidem Lpos sat show ?thesis
      unfolding nonneg_def [symmetric] ints_def [symmetric] by blast
  qed
qed

text \<open>The conversion of \<open>(255, 0, 2\<^sup>-\<^sup>6\<^sup>0)\<close>, one rounding after the other.\<close>

lemma hsl_hue_360:
  "rgbToHsl (Fin 255) (Fin 0) (Fin (1 / 1152921504606846976)) =
     (Fin 360, Fin 100, Fin 50)"
proof -
  have r1: "round64 (255 / 255) = 1"
    by (rule round64_evalI [where k = "-52" and n = "4503599627370496", THEN trans]) simp_all
  have o1: "jdiv (Fin 255) (Fin 255) = Fin 1"
    using r1 by (simp add: number64_def)
  have o2: "jdiv (Fin 0) (Fin 255) = Fin 0"
    by (simp add: number64_def)
  have r3: "round64 ((1 / 1152921504606846976) / 255) = (282578800148737 / 83076749736557242056487941267521536)"
    by (rule round64_evalI [where k = "-120" and n = "4521260802379792", THEN trans]) simp_all
  have o3: "jdiv (Fin (1 / 1152921504606846976)) (Fin 255) = Fin (282578800148737 / 83076749736557242056487941267521536)"
    using r3 by (simp add: number64_def)
  have r4: "round64 (1 + 0) = 1"
    by (rule round64_evalI [where k = "-52" and n = "4503599627370496", THEN trans]) simp_all
  have o4: "jadd (Fin 1) (Fin 0) = Fin 1"
    using r4 by (simp add: number64_def)
  have r5: "round64 (1 / 2) = (1 / 2)"
    by (rule round64_evalI [where k = "-53" and n = "4503599627370496", THEN trans]) simp_all
  have o5: "jdiv (Fin 1) (Fin 2) = Fin (1 / 2)"
    using r5 by (simp add: number64_def)
  have r6: "round64 (1 - 0) = 1"
    by (rule round64_evalI [where k = "-52" and n = "4503599627370496", THEN trans]) simp_all
  have o6: "jsub (Fin 1) (Fin 0) = Fin 1"
    using r6 by (simp add: number64_def jsub_def)
  have r7: "round64 (1 / 1) = 1"
    by (rule round64_evalI [where k = "-52" and n = "4503599627370496", THEN trans]) simp_all
  have o7: "jdiv (Fin 1) (Fin 1) = Fin 1"
    using r7 by (simp add: number64_def)
  have r8: "round64 (0 - (282578800148737 / 83076749736557242056487941267521536)) = (- (282578800148737 / 83076749736557242056487941267521536))"
    by (rule round64_evalI [where k = "-120" and n = "-4521260802379792", THEN trans]) simp_all
  have o8: "jsub (Fin 0) (Fin (282578800148737 / 83076749736557242056487941267521536)) = Fin (- (282578800148737 / 83076749736557242056487941267521536))"
    using r8 by (simp add: number64_def jsub_def)
  have r9: "round64 ((- (282578800148737 / 83076749736557242056487941267521536)) / 1) = (- (282578800148737 / 83076749736557242056487941267521536))"
    by (rule round64_evalI [where k = "-120" and n = "-4521260802379792", THEN trans]) simp_all
  have o9: "jdiv (Fin (- (282578800148737 / 83076749736557242056487941267521536))) (Fin 1) = Fin (- (282578800148737 / 83076749736557242056487941267521536))"
    using r9 by (simp add: number64_def)
  have r10: "round64 ((- (282578800148737 / 83076749736557242056487941267521536)) + 6) = 6"
    by (rule round64_evalI [where k = "-50" and n = "6755399441055744", THEN trans]) simp_all
  have o10: "jadd (Fin (- (282578800148737 / 83076749736557242056487941267521536))) (Fin 6) = Fin 6"
    using r10 by (simp add: number64_def)
  have r11: "round64 (6 / 6) = 1"
    by (rule round64_evalI [where k = "-52" and n = "4503599627370496", THEN trans]) simp_all
  have o11: "jdiv (Fin 6) (Fin 6) = Fin 1"
    using r11 by (simp add: number64_def)
  have r12: "round64 (1 * 360) = 360"
    by (rule round64_evalI [where k = "-44" and n = "6333186975989760", THEN trans]) simp_all
  have o12: "jmul (Fin 1) (Fin 360) = Fin 360"
    using r12 by (simp add: number64_def)
  have r13: "round64 (1 * 100) = 100"
    by (rule round64_evalI [where k = "-46" and n = "7036874417766400", THEN trans]) simp_all
  have o13: "jmul (Fin 1) (Fin 100) = Fin 100"
    using r13 by (simp add: number64_def)
  have r14: "round64 ((1 / 2) * 100) = 50"
    by (rule round64_evalI [where k = "-47" and n = "7036874417766400", THEN trans]) simp_all
  have o14: "jmul (Fin (1 / 2)) (Fin 100) = Fin 50"
    using r14 by (simp add: number64_def)
  show ?thesis
    by (simp add: rgbToHsl_def Let_def Math_max3 Math_min3 jgt_def o1 o2 o3 o4 o5 o6 o7 o8 o9 o10 o11 o12 o13 o14
          del: jadd.simps jmul.simps jdiv.simps)
qed

text \<open>
  C8. For every triple \<open>(r, g, b)\<close> with each channel in \<open>[0, 255]\<close>, \<open>rgbToHsl\<close> returns
  three finite numbers: a hue \<open>h\<close> with \<open>0 \<le> h \<le> 360\<close>, a saturation \<open>s\<close> with
  \<open>0 \<le> s \<le> 100\<close> and a lightness \<open>l\<close> with \<open>0 \<le> l \<le> 100\<close>. When the three channels are
  integers the hue is strictly below 360.
\<close>

theorem rgbToHsl_bounds:
  fixes r g b :: real
  assumes r: "0 \<le> r" "r \<le> 255" and g: "0 \<le> g" "g \<le> 255" and b: "0 \<le> b" "b \<le> 255"
  shows "\<exists>h s l. rgbToHsl (Fin r) (Fin g) (Fin b) = (Fin h, Fin s, Fin l) \<and>
           0 \<le> h \<and> h \<le> 360 \<and> 0 \<le> s \<and> s \<le> 100 \<and> 0 \<le> l \<and> l \<le> 100 \<and>
           (r \<in> \<int> \<and> g \<in> \<int> \<and> b \<in> \<int> \<longrightarrow> h < 360)"
proof -
  have "\<bar>r\<bar> \<le> 255" "\<bar>g\<bar> \<le> 255" "\<bar>b\<bar> \<le> 255"
    using r g b by simp_all
  from rgbToHsl_Fin [OF this] obtain h s l where
    hsl: "rgbToHsl (Fin r) (Fin g) (Fin b) = (Fin h, s, Fin l)" "0 \<le> h" "h \<le> 360" "\<bar>l\<bar> \<le> 100"
      "0 \<le> r \<and> 0 \<le> g \<and> 0 \<le> b \<longrightarrow> 0 \<le> l \<and> (\<exists>S. s = Fin S \<and> 0 \<le> S \<and> S \<le> 100)"
      "r \<in> \<int> \<and> g \<in> \<int> \<and> b \<in> \<int> \<longrightarrow> h < 360"
    by blast
  from hsl(5) r g b obtain S where S: "s = Fin S" "0 \<le> S" "S \<le> 100" and l0: "0 \<le> l"
    by blast
  from hsl(4) have "l \<le> 100" by simp
  with hsl(1,2,3,6) S l0 show ?thesis by blast
qed

theorem rgbToHsl_bounds_witness:
  "(0 :: real) \<le> 200 \<and> (200 :: real) \<le> 255 \<and> (0 :: real) \<le> 150 \<and> (150 :: real) \<le> 255 \<and>
   (0 :: real) \<le> 120 \<and> (120 :: real) \<le> 255 \<and>
   (200 :: real) \<in> \<int> \<and> (150 :: real) \<in> \<int> \<and> (120 :: real) \<in> \<int> \<and>
   (\<exists>h s l. rgbToHsl (Fin 200) (Fin 150) (Fin 120) = (Fin h, Fin s, Fin l) \<and>
      0 \<le> h \<and> h < 360 \<and> 0 \<le> s \<and> s \<le> 100 \<and> 0 \<le> l \<and> l \<le> 100)"
  using rgbToHsl_bounds [of 200 150 120] by simp blast

text \<open>
  A channel that is not an integer can give the hue 360 itself: the blue channel
  \<open>2\<^sup>-\<^sup>6\<^sup>0\<close> under a red of 255 and a green of 0 makes the sixth of the circle
  \<open>6 - 2\<^sup>-\<^sup>6\<^sup>0 / 255\<close>, which rounds to 6.
\<close>

theorem rgbToHsl_hue_360:
  "(0 :: real) \<le> 255 \<and> (0 :: real) \<le> 1 / 2 ^ 60 \<and> (1 :: real) / 2 ^ 60 \<le> 255 \<and>
   rgbToHsl (Fin 255) (Fin 0) (Fin (1 / 2 ^ 60)) = (Fin 360, Fin 100, Fin 50)"
  using hsl_hue_360 by simp

subsection \<open>Hexadecimal strings\<close>

lemma Math_round_of_int: "Math_round (of_int n) = n"
  by (simp add: Math_round_def)

lemma Math_round_nearest: "\<bar>real_of_int (Math_round x) - x\<bar> \<le> 1 / 2"
  unfolding Math_round_def by linarith

lemma below16: "n < 16 \<Longrightarrow> n \<in> {0, 1, 2, 3, 4, 5, 6, 7, 8, 9, 10, 11, 12, 13, 14, 15 :: nat}"
  by simp arith

lemma hexDigit_props:
  assumes "n < 16"
  shows "hexDigitValue (hexDigit n) = Some n" and "isHexDigit (hexDigit n)"
    and "\<not> isWhiteSpace (hexDigit n)" and "hexDigit n \<noteq> CHR ''+''" and "hexDigit n \<noteq> CHR ''-''"
    and "hexDigit n \<noteq> CHR ''x''" and "hexDigit n \<noteq> CHR ''X''"
    and "hexDigit n \<in> set ''0123456789abcdef''"
  using below16 [OF assms]
  by (auto simp: hexDigit_def hexDigitValue_def isHexDigit_def isWhiteSpace_def)

lemma two_digits:
  assumes "n < 256"
  shows "(let hex = hexString n in if length hex = 1 then ''0'' @ hex else hex) =
         [hexDigit (n div 16), hexDigit (n mod 16)]"
proof (cases "n < 16")
  case True
  then show ?thesis by (simp add: hexString.simps [of n] hexDigit_def)
next
  case False
  with assms have "n div 16 < 16" by simp
  with False show ?thesis by (simp add: hexString.simps [of n] hexString.simps [of "n div 16"])
qed

lemma channel_digits:
  assumes "0 \<le> Math_round x" "Math_round x \<le> 255"
  shows "(let hex = toString16 (Math_round x) in if length hex = 1 then ''0'' @ hex else hex) =
         [hexDigit (nat (Math_round x) div 16), hexDigit (nat (Math_round x) mod 16)]"
proof -
  have "nat (Math_round x) < 256" using assms by simp
  from two_digits [OF this] assms(1) show ?thesis by (simp add: toString16_def)
qed

lemma parseInt16_digits:
  assumes "a < 16" "b < 16"
  shows "parseInt16 [hexDigit a, hexDigit b] = Fin (real (16 * a + b))"
  using hexDigit_props [OF assms(1)] hexDigit_props [OF assms(2)]
  by (simp add: parseInt16_def hexValue_def)

lemma rgbToHex_digits:
  assumes "0 \<le> Math_round r" "Math_round r \<le> 255" "0 \<le> Math_round g" "Math_round g \<le> 255"
    "0 \<le> Math_round b" "Math_round b \<le> 255"
  shows "rgbToHex r g b =
     [CHR ''#'', hexDigit (nat (Math_round r) div 16), hexDigit (nat (Math_round r) mod 16),
      hexDigit (nat (Math_round g) div 16), hexDigit (nat (Math_round g) mod 16),
      hexDigit (nat (Math_round b) div 16), hexDigit (nat (Math_round b) mod 16)]"
  using channel_digits [OF assms(1,2)] channel_digits [OF assms(3,4)] channel_digits [OF assms(5,6)]
  by (simp add: rgbToHex_def)

lemma decode_channel:
  assumes "0 \<le> n" "n \<le> 255"
  shows "parseInt16 [hexDigit (nat n div 16), hexDigit (nat n mod 16)] = Fin (of_int n)"
proof -
  have "nat n div 16 < 16" "nat n mod 16 < 16" using assms by simp_all
  from parseInt16_digits [OF this] have
    "parseInt16 [hexDigit (nat n div 16), hexDigit (nat n mod 16)] = Fin (real (nat n))"
    by simp
  with assms(1) show ?thesis by simp
qed

text \<open>
  C7, as amended. \<open>rgbToHex\<close> does not clamp. For every triple of reals whose channels
  round into \<open>[0, 255]\<close> it rounds each channel to the nearest integer (at most a half
  away) and returns a string of seven characters: \<open>#\<close>, then for each channel the two
  lower-case hexadecimal digits of the rounded value, which \<open>parseInt\<close> reads back.
\<close>

theorem rgbToHex_in_range:
  assumes "0 \<le> Math_round r" "Math_round r \<le> 255" "0 \<le> Math_round g" "Math_round g \<le> 255"
    "0 \<le> Math_round b" "Math_round b \<le> 255"
  shows "length (rgbToHex r g b) = 7 \<and> hd (rgbToHex r g b) = CHR ''#'' \<and>
     (\<forall>c \<in> set (tl (rgbToHex r g b)). c \<in> set ''0123456789abcdef'') \<and>
     parseInt16 (slice_string 1 3 (rgbToHex r g b)) = Fin (of_int (Math_round r)) \<and>
     parseInt16 (slice_string 3 5 (rgbToHex r g b)) = Fin (of_int (Math_round g)) \<and>
     parseInt16 (slice_string 5 7 (rgbToHex r g b)) = Fin (of_int (Math_round b)) \<and>
     \<bar>of_int (Math_round r) - r\<bar> \<le> 1 / 2 \<and> \<bar>of_int (Math_round g) - g\<bar> \<le> 1 / 2 \<and>
     \<bar>of_int (Math_round b) - b\<bar> \<le> 1 / 2"
proof -
  note hex = rgbToHex_digits [OF assms]
  have lt: "nat (Math_round r) div 16 < 16" "nat (Math_round r) mod 16 < 16"
    "nat (Math_round g) div 16 < 16" "nat (Math_round g) mod 16 < 16"
    "nat (Math_round b) div 16 < 16" "nat (Math_round b) mod 16 < 16"
    using assms by simp_all
  have "\<forall>c \<in> set (tl (rgbToHex r g b)). c \<in> set ''0123456789abcdef''"
    unfolding hex using lt [THEN hexDigit_props(8)] by simp
  moreover have "parseInt16 (slice_string 1 3 (rgbToHex r g b)) = Fin (of_int (Math_round r))"
    unfolding hex using decode_channel [OF assms(1,2)] by (simp add: slice_string_def)
  moreover have "parseInt16 (slice_string 3 5 (rgbToHex r g b)) = Fin (of_int (Math_round g))"
    unfolding hex using decode_channel [OF assms(3,4)] by (simp add: slice_string_def)
  moreover have "parseInt16 (slice_string 5 7 (rgbToHex r g b)) = Fin (of_int (Math_round b))"
    unfolding hex using decode_channel [OF assms(5,6)] by (simp add: slice_string_def)
  moreover have "length (rgbToHex r g b) = 7" "hd (rgbToHex r g b) = CHR ''#''"
    unfolding hex by simp_all
  ultimately show ?thesis
    using Math_round_nearest [of r] Math_round_nearest [of g] Math_round_nearest [of b] by simp
qed

theorem rgbToHex_in_range_witness:
  "0 \<le> Math_round (399 / 2) \<and> Math_round (399 / 2) \<le> 255 \<and>
   0 \<le> Math_round (751 / 5) \<and> Math_round (751 / 5) \<le> 255 \<and>
   0 \<le> Math_round 120 \<and> Math_round 120 \<le> 255 \<and>
   length (rgbToHex (399 / 2) (751 / 5) 120) = 7 \<and>
   parseInt16 (slice_string 1 3 (rgbToHex (399 / 2) (751 / 5) 120)) = Fin 200 \<and>
   parseInt16 (slice_string 3 5 (rgbToHex (399 / 2) (751 / 5) 120)) = Fin 150 \<and>
   parseInt16 (slice_string 5 7 (rgbToHex (399 / 2) (751 / 5) 120)) = Fin 120"
proof -
  have rd: "Math_round (399 / 2) = 200" "Math_round (751 / 5) = 150" "Math_round 120 = 120"
    by (simp_all add: Math_round_def)
  have "0 \<le> Math_round (399 / 2)" "Math_round (399 / 2) \<le> 255"
    "0 \<le> Math_round (751 / 5)" "Math_round (751 / 5) \<le> 255"
    "0 \<le> Math_round 120" "Math_round 120 \<le> 255"
    by (simp_all add: rd)
  from rgbToHex_in_range [OF this] show ?thesis by (simp add: rd)
qed

text \<open>
  The claim C7 as it was stated fails: 256 is not clamped to 255 but printed with three
  digits, and a negative channel is printed with its sign.
\<close>

theorem rgbToHex_no_clamp: "rgbToHex 256 0 0 = ''#1000000'' \<and> length (rgbToHex 256 0 0) \<noteq> 7 \<and>
   rgbToHex (- 1) 0 0 = ''#-10000''"
  by (simp add: rgbToHex_def toString16_def Math_round_def hexString.simps hexDigit_def)

text \<open>
  C3. For every triple of integers \<open>(r, g, b)\<close> with each channel in \<open>[0, 255]\<close>, the three
  \<open>parseInt(hex.slice(..), 16)\<close> of \<open>analyzeSkinTone\<close> applied to \<open>rgbToHex(r, g, b)\<close>
  give back exactly \<open>r\<close>, \<open>g\<close> and \<open>b\<close>.
\<close>

theorem hex_round_trip:
  fixes r g b :: int
  assumes "0 \<le> r" "r \<le> 255" "0 \<le> g" "g \<le> 255" "0 \<le> b" "b \<le> 255"
  shows "parseInt16 (slice_string 1 3 (rgbToHex (of_int r) (of_int g) (of_int b))) = Fin (of_int r) \<and>
         parseInt16 (slice_string 3 5 (rgbToHex (of_int r) (of_int g) (of_int b))) = Fin (of_int g) \<and>
         parseInt16 (slice_string 5 7 (rgbToHex (of_int r) (of_int g) (of_int b))) = Fin (of_int b)"
proof -
  have rd: "Math_round (of_int r) = r" "Math_round (of_int g) = g" "Math_round (of_int b) = b"
    by (rule Math_round_of_int)+
  have hex: "rgbToHex (of_int r) (of_int g) (of_int b) =
     [CHR ''#'', hexDigit (nat r div 16), hexDigit (nat r mod 16),
      hexDigit (nat g div 16), hexDigit (nat g mod 16),
      hexDigit (nat b div 16), hexDigit (nat b mod 16)]"
    using rgbToHex_digits [of "of_int r" "of_int g" "of_int b"] assms by (simp add: rd)
  show ?thesis
    unfolding hex
    using decode_channel [OF assms(1,2)] decode_channel [OF assms(3,4)] decode_channel [OF assms(5,6)]
    by (simp add: slice_string_def)
qed

theorem hex_round_trip_witness:
  "(0 :: int) \<le> 200 \<and> (200 :: int) \<le> 255 \<and> (0 :: int) \<le> 150 \<and> (150 :: int) \<le> 255 \<and>
   (0 :: int) \<le> 120 \<and> (120 :: int) \<le> 255 \<and>
   parseInt16 (slice_string 1 3 (rgbToHex 200 150 120)) = Fin 200 \<and>
   parseInt16 (slice_string 3 5 (rgbToHex 200 150 120)) = Fin 150 \<and>
   parseInt16 (slice_string 5 7 (rgbToHex 200 150 120)) = Fin 120"
  using hex_round_trip [of 200 150 120] by simp

section \<open>The classifier\<close>


lemma jge_Fin: "jge (Fin a) (Fin b) = (b \<le> a)"
  by (auto simp: jge_def jle_def)

lemma jle_NaN: "jle NaN y = False" "jle x NaN = False"
  by (cases x; simp add: jle_def)+

lemma jge_NaN: "jge NaN y = False" "jge x NaN = False"
  by (simp_all add: jge_def jle_NaN)
lemma parseInt16_finOrNaN: "finOrNaN (parseInt16 s)"
  by (simp add: parseInt16_def finOrNaN_def Let_def)

lemma jmax_NaN: "jmax NaN y = NaN" "jmax x NaN = NaN"
  by (simp_all add: jmax_def)

lemma jmin_NaN: "jmin NaN y = NaN" "jmin x NaN = NaN"
  by (simp_all add: jmin_def)

lemma hexDigitValue_less: "hexDigitValue c = Some n \<Longrightarrow> n < 16"
  by (auto simp: hexDigitValue_def Let_def split: if_splits)

lemma hexValue_snoc: "hexValue (z @ [c]) = 16 * hexValue z + the (hexDigitValue c)"
  by (simp add: hexValue_def)

lemma hexValue_less:
  assumes "\<forall>c \<in> set z. isHexDigit c"
  shows "hexValue z < 16 ^ length z"
  using assms
proof (induction z rule: rev_induct)
  case Nil
  then show ?case by (simp add: hexValue_def)
next
  case (snoc c z)
  from snoc.prems obtain n where "hexDigitValue c = Some n"
    by (auto simp: isHexDigit_def)
  with hexDigitValue_less [OF this] snoc show ?case
    by (simp add: hexValue_snoc)
qed

lemma parseInt16_channel:
  assumes "length s \<le> 2"
  shows "parseInt16 s = NaN \<or> (\<exists>v. parseInt16 s = Fin v \<and> \<bar>v\<bar> \<le> 255 \<and> v \<in> \<int>)"
proof -
  define s1 where "s1 = dropWhile isWhiteSpace s"
  define sign where "sign = (if s1 \<noteq> [] \<and> hd s1 = CHR ''-'' then - 1 else (1 :: int))"
  define s2 where "s2 = (if s1 \<noteq> [] \<and> (hd s1 = CHR ''+'' \<or> hd s1 = CHR ''-'') then tl s1 else s1)"
  define s3 where "s3 = (if 2 \<le> length s2 \<and> (take 2 s2 = ''0x'' \<or> take 2 s2 = ''0X'')
                then drop 2 s2 else s2)"
  define z where "z = takeWhile isHexDigit s3"
  have eq: "parseInt16 s = (if z = [] then NaN else Fin (of_int (sign * int (hexValue z))))"
    by (simp only: parseInt16_def Let_def s1_def sign_def s2_def s3_def z_def)
  have "length s1 \<le> length s"
    unfolding s1_def by (rule length_dropWhile_le)
  moreover have "length s2 \<le> length s1"
    by (simp add: s2_def)
  moreover have "length s3 \<le> length s2"
    by (simp add: s3_def)
  moreover have "length z \<le> length s3"
    unfolding z_def by (rule length_takeWhile_le)
  ultimately have len: "length z \<le> 2"
    using assms by linarith
  have "\<forall>c \<in> set z. isHexDigit c"
    by (auto simp: z_def dest: set_takeWhileD)
  from hexValue_less [OF this] have "hexValue z < 16 ^ length z" .
  also have "(16 :: nat) ^ length z \<le> 16 ^ 2"
    using len by (intro power_increasing) simp_all
  finally have v: "hexValue z \<le> 255" by simp
  have "sign = 1 \<or> sign = - 1"
    by (simp add: sign_def)
  then have "\<bar>(of_int (sign * int (hexValue z)) :: real)\<bar> \<le> 255"
    using v by auto
  then show ?thesis
    unfolding eq by auto
qed

lemma slice_channel: "length (slice_string a (a + 2) s) \<le> 2"
  by (simp add: slice_string_def)

lemma rgbToHsl_NaN:
  assumes "r = NaN \<or> g = NaN \<or> b = NaN" "finOrNaN r" "finOrNaN g" "finOrNaN b"
  shows "rgbToHsl r g b = (Fin 0, NaN, NaN)"
proof -
  let ?r = "jdiv r (Fin 255)" and ?g = "jdiv g (Fin 255)" and ?b = "jdiv b (Fin 255)"
  have "?r = NaN \<or> ?g = NaN \<or> ?b = NaN"
    using assms(1) by auto
  then have mx: "Math_max [?r, ?g, ?b] = NaN" and mn: "Math_min [?r, ?g, ?b] = NaN"
    by (auto simp: Math_max_def Math_min_def jmax_NaN jmin_NaN)
  show ?thesis
    unfolding rgbToHsl_def Let_def mx mn by (simp add: jsub_def jgt_def)
qed

text \<open>What \<open>rgbToHsl\<close> makes of three results of \<open>parseInt\<close>.\<close>

lemma rgbToHsl_parsed:
  assumes "r = NaN \<or> (\<exists>v. r = Fin v \<and> \<bar>v\<bar> \<le> 255 \<and> v \<in> \<int>)"
    and "g = NaN \<or> (\<exists>v. g = Fin v \<and> \<bar>v\<bar> \<le> 255 \<and> v \<in> \<int>)"
    and "b = NaN \<or> (\<exists>v. b = Fin v \<and> \<bar>v\<bar> \<le> 255 \<and> v \<in> \<int>)"
  shows "\<exists>h s l. rgbToHsl r g b = (Fin h, s, l) \<and> 0 \<le> h \<and> h < 360 \<and> round64 h = h \<and>
           (l = NaN \<or> (\<exists>v. l = Fin v \<and> \<bar>v\<bar> \<le> 100 \<and> round64 v = v))"
proof (cases "r = NaN \<or> g = NaN \<or> b = NaN")
  case True
  from assms have "finOrNaN r" "finOrNaN g" "finOrNaN b"
    by (auto simp: finOrNaN_def)
  from rgbToHsl_NaN [OF True this] show ?thesis by simp
next
  case False
  with assms obtain r' g' b' where v: "r = Fin r'" "g = Fin g'" "b = Fin b'"
    "\<bar>r'\<bar> \<le> 255" "\<bar>g'\<bar> \<le> 255" "\<bar>b'\<bar> \<le> 255" "r' \<in> \<int>" "g' \<in> \<int>" "b' \<in> \<int>"
    by auto
  from rgbToHsl_Fin [OF v(4,5,6)] v(7,8,9) show ?thesis
    unfolding v(1,2,3) by blast
qed

lemma colorHSLs_shape:
  assumes "t \<in> set (colorHSLs colors)"
  shows "\<exists>h s l. t = (Fin h, s, l) \<and> 0 \<le> h \<and> h < 360 \<and> round64 h = h \<and>
           (l = NaN \<or> (\<exists>v. l = Fin v \<and> \<bar>v\<bar> \<le> 100 \<and> round64 v = v))"
proof -
  from assms obtain hex where
    t: "t = rgbToHsl (parseInt16 (slice_string 1 3 hex)) (parseInt16 (slice_string 3 5 hex))
              (parseInt16 (slice_string 5 7 hex))"
    by (auto simp: colorHSLs_def Let_def)
  have "length (slice_string 1 3 hex) \<le> 2" "length (slice_string 3 5 hex) \<le> 2"
    "length (slice_string 5 7 hex) \<le> 2"
    by (simp_all add: slice_string_def)
  from rgbToHsl_parsed [OF parseInt16_channel [OF this(1)] parseInt16_channel [OF this(2)]
      parseInt16_channel [OF this(3)]]
  show ?thesis unfolding t .
qed

lemma length_colorHSLs: "length (colorHSLs colors) = length colors"
  by (simp add: colorHSLs_def)







lemma fold_hue: "foldl (\<lambda>sum (h, s, l). jadd sum h) a xs = foldl jadd a (map fst xs)"
  by (induction xs arbitrary: a) (simp_all add: split_def)

lemma fold_lightness:
  "foldl (\<lambda>sum (h, s, l). jadd sum l) a xs = foldl jadd a (map (snd \<circ> snd) xs)"
  by (induction xs arbitrary: a) (simp_all add: split_def)

lemma avgHue_alt:
  "avgHue colors =
     jdiv (foldl jadd (Fin 0) (map fst (colorHSLs colors))) (Fin (real (length colors)))"
  by (simp add: avgHue_def fold_hue length_colorHSLs)

lemma avgLightness_alt:
  "avgLightness colors =
     jdiv (foldl jadd (Fin 0) (map (snd \<circ> snd) (colorHSLs colors))) (Fin (real (length colors)))"
  by (simp add: avgLightness_def fold_lightness length_colorHSLs)







lemma level_of_Fin:
  assumes "avgLightness colors = Fin a"
  shows "(level_number (skinToneLevel (analyzeSkinTone colors)),
          level_name (skinToneLevel (analyzeSkinTone colors))) = specLightnessLevel a"
  using assms
  by (simp add: analyzeSkinTone_def Let_def split_def jge_Fin specLightnessLevel_def SKIN_TONE_SCALE_def)



subsection \<open>Some colours, evaluated\<close>

lemmas parse_simps = parseInt16_def slice_string_def isWhiteSpace_def isHexDigit_def
  hexDigitValue_def hexValue_def

lemma rgbToHsl_lightness:
  "snd (snd (rgbToHsl r g b)) =
     (let r' = jdiv r (Fin 255); g' = jdiv g (Fin 255); b' = jdiv b (Fin 255)
      in jmul (jdiv (jadd (Math_max [r', g', b']) (Math_min [r', g', b'])) (Fin 2)) (Fin 100))"
  by (simp add: rgbToHsl_def Let_def)









subsection \<open>The undertone and the level\<close>





subsection \<open>The empty list\<close>

lemma averages_empty: "avgLightness [] = NaN" "avgHue [] = NaN"
  by (simp_all add: avgLightness_def avgHue_def colorHSLs_def)

text \<open>
  The claim C1 as it was stated fails: on the empty list \<open>analyzeSkinTone\<close> returns a
  profile, that of level 10 and of the neutral undertone.
\<close>

theorem analyzeSkinTone_empty_returns:
  "analyzeSkinTone [] =
     \<lparr>dominantColors = [], skinToneType = neutral, undertone = ''Balanced'',
      skinToneLevel = \<lparr>level_name = ''Ebony'', level_hex = ''#292421'', level_number = 10\<rparr>,
      outfitPalettes = basePalettes neutral, outfitExamples = baseExamples neutral,
      recommendations = generateRecommendations neutral\<rparr>"
  by (simp add: analyzeSkinTone_def averages_empty jge_NaN jle_NaN SKIN_TONE_SCALE_def
      generateOutfitPalettes_def generateOutfitExamples_def basePalettes_def baseExamples_def)

text \<open>
  C1, as amended. \<open>analyzeSkinTone\<close> has no failure mode: on every list of strings it
  returns a profile that repeats the list, whose level is an entry of \<open>SKIN_TONE_SCALE\<close>
  and whose undertone is one of the three categories with its label. On the empty list
  both averages are \<open>NaN\<close> (\<open>0 / 0\<close>), every comparison is false, and the profile is
  level 10, Ebony, with the neutral undertone, labelled \<open>Balanced\<close>.
\<close>

theorem analyzeSkinTone_no_failure:
  "dominantColors (analyzeSkinTone colors) = colors \<and>
   skinToneLevel (analyzeSkinTone colors) \<in> set SKIN_TONE_SCALE \<and>
   (skinToneType (analyzeSkinTone colors), undertone (analyzeSkinTone colors)) \<in>
     {(warm, ''Golden/Yellow''), (cool, ''Pink/Red''), (neutral, ''Balanced'')} \<and>
   (colors = [] \<longrightarrow>
      avgLightness colors = NaN \<and> avgHue colors = NaN \<and>
      skinToneLevel (analyzeSkinTone colors) = SKIN_TONE_SCALE ! 9 \<and>
      level_number (skinToneLevel (analyzeSkinTone colors)) = 10 \<and>
      level_name (skinToneLevel (analyzeSkinTone colors)) = ''Ebony'' \<and>
      skinToneType (analyzeSkinTone colors) = neutral \<and>
      undertone (analyzeSkinTone colors) = ''Balanced'')"
proof (intro conjI impI)
  show "dominantColors (analyzeSkinTone colors) = colors"
    by (simp add: analyzeSkinTone_def Let_def split_def)
  show "skinToneLevel (analyzeSkinTone colors) \<in> set SKIN_TONE_SCALE"
    by (simp add: analyzeSkinTone_def Let_def split_def SKIN_TONE_SCALE_def)
  show "(skinToneType (analyzeSkinTone colors), undertone (analyzeSkinTone colors)) \<in>
     {(warm, ''Golden/Yellow''), (cool, ''Pink/Red''), (neutral, ''Balanced'')}"
    by (simp add: analyzeSkinTone_def Let_def split_def)
qed (simp_all add: analyzeSkinTone_def averages_empty jge_NaN jle_NaN SKIN_TONE_SCALE_def)


theorem analyzeSkinTone_no_failure_witness:
  "avgLightness [] = NaN \<and> avgHue [] = NaN \<and>
   level_name (skinToneLevel (analyzeSkinTone [])) = ''Ebony'' \<and>
   skinToneType (analyzeSkinTone []) = neutral \<and> undertone (analyzeSkinTone []) = ''Balanced''"
  using analyzeSkinTone_no_failure [of "[]"] by (simp add: SKIN_TONE_SCALE_def)

subsection \<open>The recommendations\<close>

text \<open>
  The claim C2 as it was stated fails: for the neutral undertone the palettes and the
  example phrases of level 7 are those of level 6, no more of them.
\<close>

theorem level_adds_no_variant:
  "length (generateOutfitPalettes neutral 7) = length (generateOutfitPalettes neutral 6) \<and>
   length (generateOutfitExamples neutral 7) = length (generateOutfitExamples neutral 6) \<and>
   generateOutfitPalettes neutral 7 = generateOutfitPalettes neutral 6 \<and>
   generateOutfitExamples neutral 7 = generateOutfitExamples neutral 6"
  by (simp add: generateOutfitPalettes_def generateOutfitExamples_def Let_def)

lemma length_base: "length (basePalettes t) = 4" "length (baseExamples t) = 2"
  by (cases t; simp add: basePalettes_def baseExamples_def)+

text \<open>
  C2, as amended. For the neutral undertone the palettes and the example phrases are the
  base ones at every level. Below level 7 every undertone has its four base palettes and
  its two base phrases. At every level and for every undertone the first four palettes
  and the first two phrases are the base ones. The clothing, makeup, lip and eyeshadow
  colours depend on the undertone only.
\<close>

theorem recommendations_by_level:
  "generateOutfitPalettes neutral l = basePalettes neutral \<and>
   generateOutfitExamples neutral l = baseExamples neutral \<and>
   (l < 7 \<longrightarrow> generateOutfitPalettes t l = basePalettes t \<and>
               generateOutfitExamples t l = baseExamples t) \<and>
   take 4 (generateOutfitPalettes t l) = basePalettes t \<and>
   take 2 (generateOutfitExamples t l) = baseExamples t \<and>
   recommendations (analyzeSkinTone colors) =
     generateRecommendations (skinToneType (analyzeSkinTone colors))"
proof -
  have "generateOutfitPalettes t' l' = basePalettes t'"
    and "generateOutfitExamples t' l' = baseExamples t'" for t' l'
    by (simp_all add: generateOutfitPalettes_def generateOutfitExamples_def Let_def length_base)
  moreover have "recommendations (analyzeSkinTone colors) =
     generateRecommendations (skinToneType (analyzeSkinTone colors))"
    by (simp add: analyzeSkinTone_def Let_def split_def)
  ultimately show ?thesis
    using length_base [of t] by simp
qed

theorem recommendations_by_level_witness:
  "(6 :: nat) < 7 \<and> generateOutfitPalettes warm 6 = basePalettes warm \<and>
   generateOutfitExamples warm 6 = baseExamples warm \<and>
   length (generateOutfitPalettes warm 6) = 4"
  using recommendations_by_level [of 6 warm "[]"] length_base [of warm] by simp

section \<open>The extraction\<close>

lemma byte_bounds:
  fixes w :: "8 word"
  assumes "30 < w" "w < 250"
  shows "31 \<le> real (unat w)" "real (unat w) \<le> 249"
proof -
  have "30 < unat w" "unat w < 250"
    using assms by (simp_all add: word_less_nat_alt)
  then show "31 \<le> real (unat w)" "real (unat w) \<le> 249" by linarith+
qed

lemma passesFilter_inGamut: "passesFilter d i \<Longrightarrow> inGamut (pixelAt d i)"
  unfolding passesFilter_def inGamut_def pixelAt_def
  using byte_bounds by simp

lemma passesFilter_iff:
  "passesFilter d i \<longleftrightarrow>
     i + 3 < length d \<and> 200 < unat (d ! (i + 3)) \<and>
     30 < unat (d ! i) \<and> unat (d ! i) < 250 \<and>
     30 < unat (d ! (i + 1)) \<and> unat (d ! (i + 1)) < 250 \<and>
     30 < unat (d ! (i + 2)) \<and> unat (d ! (i + 2)) < 250"
  by (auto simp: passesFilter_def word_less_nat_alt)

lemma all_nat_Suc: "(\<forall>j. Q j) \<longleftrightarrow> Q (0 :: nat) \<and> (\<forall>j. Q (Suc j))"
  by (metis not0_implies_Suc)

lemma samplePixels_empty_iff:
  "samplePixels d i pixels = [] \<longleftrightarrow> pixels = [] \<and> (\<forall>j. \<not> passesFilter d (i + 16 * j))"
proof (induction d i pixels rule: samplePixels.induct)
  case (1 d i pixels)
  show ?case
  proof (cases "i < length d")
    case True
    let ?pixels = "if passesFilter d i then pixels @ [pixelAt d i] else pixels"
    have "samplePixels d i pixels = samplePixels d (i + 16) ?pixels"
      using True by (simp add: samplePixels.simps [of d i])
    also have "\<dots> = [] \<longleftrightarrow> ?pixels = [] \<and> (\<forall>j. \<not> passesFilter d (i + 16 + 16 * j))"
      using "1.IH" [OF True] by simp
    also have "\<dots> \<longleftrightarrow> pixels = [] \<and> (\<forall>j. \<not> passesFilter d (i + 16 * j))"
    proof -
      have shift: "i + 16 + 16 * j = i + 16 * Suc j" for j by simp
      have "(\<forall>j. \<not> passesFilter d (i + 16 * j)) \<longleftrightarrow>
            \<not> passesFilter d (i + 16 * 0) \<and> (\<forall>j. \<not> passesFilter d (i + 16 * Suc j))"
        by (rule all_nat_Suc)
      then show ?thesis unfolding shift by auto
    qed
    finally show ?thesis .
  next
    case False
    then have "\<not> passesFilter d (i + 16 * j)" for j
      by (simp add: passesFilter_def)
    with False show ?thesis by (simp add: samplePixels.simps [of d i])
  qed
qed

lemma samplePixels_inGamut:
  "(\<forall>p \<in> set pixels. inGamut p) \<Longrightarrow> \<forall>p \<in> set (samplePixels d i pixels). inGamut p"
proof (induction d i pixels rule: samplePixels.induct)
  case (1 d i pixels)
  show ?case
  proof (cases "i < length d")
    case True
    let ?pixels = "if passesFilter d i then pixels @ [pixelAt d i] else pixels"
    have "\<forall>p \<in> set ?pixels. inGamut p"
      using "1.prems" passesFilter_inGamut by auto
    from "1.IH" [OF True this] True show ?thesis
      by (simp add: samplePixels.simps [of d i])
  next
    case False
    with "1.prems" show ?thesis by (simp add: samplePixels.simps [of d i])
  qed
qed

lemma initCentroids_result:
  assumes "initCentroids rand pixels k = Inr centroids"
  shows "length centroids = k \<and> set centroids \<subseteq> set pixels"
  using assms
proof (induction k arbitrary: centroids)
  case 0
  then show ?case by simp
next
  case (Suc k)
  then show ?case
    by (auto simp: Let_def split: sum.splits if_splits)
qed

lemma initCentroids_succeeds:
  assumes "\<forall>i. 0 \<le> rand i \<and> rand i < 1" "pixels \<noteq> []"
  shows "\<exists>centroids. initCentroids rand pixels k = Inr centroids"
proof (induction k)
  case 0
  show ?case by simp
next
  case (Suc k)
  then obtain centroids where c: "initCentroids rand pixels k = Inr centroids" by blast
  have r: "0 \<le> rand k" "rand k < 1" using assms(1) by simp_all
  have n: "0 < real (length pixels)" using assms(2) by simp
  have "0 \<le> rand k * real (length pixels)" using r(1) by simp
  then have lo: "0 \<le> \<lfloor>rand k * real (length pixels)\<rfloor>" by simp
  have "rand k * real (length pixels) < real (length pixels)"
    using r(2) n by simp
  then have "\<lfloor>rand k * real (length pixels)\<rfloor> < int (length pixels)"
    by (simp add: floor_less_iff)
  with lo have "nat \<lfloor>rand k * real (length pixels)\<rfloor> < length pixels" by linarith
  with lo c show ?case by (simp add: Let_def)
qed

lemma closest_fold_index:
  "snd (foldl (\<lambda>(minDistance, closest) (centroid, index).
                 if jlt (Fin (distance pixel centroid)) minDistance
                 then (Fin (distance pixel centroid), index)
                 else (minDistance, closest)) (m, c) ps) \<in> insert c (snd ` set ps)"
proof (induction ps arbitrary: m c)
  case Nil
  show ?case by simp
next
  case (Cons q ps)
  obtain centroid index where q: "q = (centroid, index)" by (cases q)
  show ?case
  proof (cases "jlt (Fin (distance pixel centroid)) m")
    case True
    with Cons.IH [of "Fin (distance pixel centroid)" index] q show ?thesis by auto
  next
    case False
    with Cons.IH [of m c] q show ?thesis by auto
  qed
qed

lemma closestCluster_less:
  assumes "centroids \<noteq> []"
  shows "closestCluster centroids pixel < length centroids"
proof -
  have "closestCluster centroids pixel \<in>
          insert 0 (snd ` set (zip centroids [0..<length centroids]))"
    unfolding closestCluster_def by (rule closest_fold_index)
  moreover have "snd ` set (zip centroids [0..<length centroids]) \<subseteq> {0..<length centroids}"
    by (auto dest: set_zip_rightD)
  ultimately show ?thesis using assms by auto
qed

lemma assignPixels_result:
  assumes "assignPixels centroids pixels clusters = Inr clusters'"
    "clustersInGamut clusters" "\<forall>p \<in> set pixels. inGamut p"
  shows "length clusters' = length clusters \<and> clustersInGamut clusters'"
  using assms
proof (induction pixels arbitrary: clusters)
  case Nil
  then show ?case by simp
next
  case (Cons pixel pixels)
  let ?c = "closestCluster centroids pixel"
  let ?clusters = "clusters[?c := clusters ! ?c @ [pixel]]"
  from Cons.prems(1) have c: "?c < length clusters"
    and rest: "assignPixels centroids pixels ?clusters = Inr clusters'"
    by (simp_all add: Let_def split: if_splits)
  have "clustersInGamut ?clusters"
    unfolding clustersInGamut_def
  proof (intro ballI)
    fix cluster p
    assume "cluster \<in> set ?clusters" "p \<in> set cluster"
    then have "cluster \<in> insert (clusters ! ?c @ [pixel]) (set clusters)"
      using set_update_subset_insert by fastforce
    moreover have "clusters ! ?c \<in> set clusters"
      using c by simp
    ultimately show "inGamut p"
      using \<open>p \<in> set cluster\<close> Cons.prems(2,3) by (auto simp: clustersInGamut_def)
  qed
  from Cons.IH [OF rest this] Cons.prems(3) show ?case by simp
qed

lemma assignPixels_succeeds:
  assumes "centroids \<noteq> []" "length clusters = length centroids"
  shows "\<exists>clusters'. assignPixels centroids pixels clusters = Inr clusters'"
  using assms(2)
proof (induction pixels arbitrary: clusters)
  case Nil
  show ?case by simp
next
  case (Cons pixel pixels)
  have "closestCluster centroids pixel < length clusters"
    using closestCluster_less [OF assms(1)] Cons.prems by simp
  moreover have "\<exists>clusters'. assignPixels centroids pixels
     (clusters[closestCluster centroids pixel := clusters ! closestCluster centroids pixel @ [pixel]])
     = Inr clusters'"
    by (rule Cons.IH) (simp add: Cons.prems)
  ultimately show ?case by (simp add: Let_def)
qed

lemma foldl_sum: "foldl (\<lambda>sum p. sum + f p) a xs = a + sum_list (map f xs)" for a :: real
  by (induction xs arbitrary: a) simp_all

lemma sum_list_bounds:
  fixes f :: "'a \<Rightarrow> real"
  assumes "\<forall>x \<in> set xs. lo \<le> f x \<and> f x \<le> hi"
  shows "lo * real (length xs) \<le> sum_list (map f xs) \<and> sum_list (map f xs) \<le> hi * real (length xs)"
  using assms by (induction xs) (auto simp: algebra_simps)

lemma mean_bounds:
  fixes f :: "'a \<Rightarrow> real"
  assumes "xs \<noteq> []" "\<forall>x \<in> set xs. lo \<le> f x \<and> f x \<le> hi"
  shows "lo \<le> foldl (\<lambda>sum p. sum + f p) 0 xs / real (length xs)"
    and "foldl (\<lambda>sum p. sum + f p) 0 xs / real (length xs) \<le> hi"
proof -
  have n: "0 < real (length xs)" using assms(1) by simp
  from sum_list_bounds [OF assms(2)] n
  show "lo \<le> foldl (\<lambda>sum p. sum + f p) 0 xs / real (length xs)"
    and "foldl (\<lambda>sum p. sum + f p) 0 xs / real (length xs) \<le> hi"
    by (simp_all add: foldl_sum le_divide_eq divide_le_eq)
qed

lemma clusterMean_inGamut:
  assumes "cluster \<noteq> []" "\<forall>p \<in> set cluster. inGamut p"
  shows "inGamut (clusterMean cluster)"
proof -
  have "\<forall>p \<in> set cluster. 31 \<le> fst p \<and> fst p \<le> 249"
    "\<forall>p \<in> set cluster. 31 \<le> fst (snd p) \<and> fst (snd p) \<le> 249"
    "\<forall>p \<in> set cluster. 31 \<le> snd (snd p) \<and> snd (snd p) \<le> 249"
    using assms(2) by (auto simp: inGamut_def)
  then show ?thesis
    using mean_bounds [OF assms(1), of 31 fst 249]
      mean_bounds [OF assms(1), of 31 "\<lambda>p. fst (snd p)" 249]
      mean_bounds [OF assms(1), of 31 "\<lambda>p. snd (snd p)" 249]
    by (simp add: inGamut_def clusterMean_def)
qed

lemma updateCentroids_result:
  assumes "clustersInGamut clusters" "\<forall>p \<in> set centroids. inGamut p"
  shows "length (updateCentroids clusters index centroids) = length centroids \<and>
         (\<forall>p \<in> set (updateCentroids clusters index centroids). inGamut p)"
  using assms
proof (induction clusters arbitrary: index centroids)
  case Nil
  then show ?case by simp
next
  case (Cons cluster clusters)
  let ?centroids = "if 0 < length cluster then centroids[index := clusterMean cluster] else centroids"
  have rest: "clustersInGamut clusters" and this_one: "\<forall>p \<in> set cluster. inGamut p"
    using Cons.prems(1) by (simp_all add: clustersInGamut_def)
  have "\<forall>p \<in> set ?centroids. inGamut p"
  proof (cases "0 < length cluster")
    case True
    then have "inGamut (clusterMean cluster)"
      using clusterMean_inGamut this_one by simp
    moreover have "set (centroids[index := clusterMean cluster]) \<subseteq>
                   insert (clusterMean cluster) (set centroids)"
      by (rule set_update_subset_insert)
    ultimately show ?thesis using True Cons.prems(2) by auto
  next
    case False
    with Cons.prems(2) show ?thesis by simp
  qed
  from Cons.IH [OF rest this, of "index + 1"] show ?case by simp
qed

lemma clustersInGamut_replicate: "clustersInGamut (replicate k [])"
  by (simp add: clustersInGamut_def)

lemma kmeansRound_result:
  assumes "kmeansRound pixels k centroids = Inr centroids'"
    "\<forall>p \<in> set pixels. inGamut p" "\<forall>p \<in> set centroids. inGamut p"
  shows "length centroids' = length centroids \<and> (\<forall>p \<in> set centroids'. inGamut p)"
proof -
  from assms(1) obtain clusters where
    a: "assignPixels centroids pixels (replicate k []) = Inr clusters"
    and c: "centroids' = updateCentroids clusters 0 centroids"
    by (auto simp: kmeansRound_def split: sum.splits)
  from assignPixels_result [OF a clustersInGamut_replicate assms(2)]
  have "clustersInGamut clusters" by simp
  from updateCentroids_result [OF this assms(3)] c show ?thesis by simp
qed

lemma kmeansRound_succeeds:
  assumes "centroids \<noteq> []" "length centroids = k"
  shows "\<exists>centroids'. kmeansRound pixels k centroids = Inr centroids'"
proof -
  have "length (replicate k ([] :: rgb list)) = length centroids"
    using assms(2) by simp
  from assignPixels_succeeds [OF assms(1) this, of pixels]
  show ?thesis by (auto simp: kmeansRound_def)
qed

lemma kmeansRounds_result:
  assumes "kmeansRounds n pixels k centroids = Inr centroids'"
    "\<forall>p \<in> set pixels. inGamut p" "\<forall>p \<in> set centroids. inGamut p"
  shows "length centroids' = length centroids \<and> (\<forall>p \<in> set centroids'. inGamut p)"
  using assms
proof (induction n arbitrary: centroids)
  case 0
  then show ?case by simp
next
  case (Suc n)
  from Suc.prems(1) obtain c1 where
    r: "kmeansRound pixels k centroids = Inr c1" and rest: "kmeansRounds n pixels k c1 = Inr centroids'"
    by (auto split: sum.splits)
  from kmeansRound_result [OF r Suc.prems(2,3)]
  have c1: "length c1 = length centroids" "\<forall>p \<in> set c1. inGamut p" by simp_all
  from Suc.IH [OF rest Suc.prems(2) c1(2)] c1(1) show ?case by simp
qed

lemma kmeansRounds_succeeds:
  assumes "0 < k" "length centroids = k" "\<forall>p \<in> set pixels. inGamut p" "\<forall>p \<in> set centroids. inGamut p"
  shows "\<exists>centroids'. kmeansRounds n pixels k centroids = Inr centroids'"
  using assms(2,4)
proof (induction n arbitrary: centroids)
  case 0
  show ?case by simp
next
  case (Suc n)
  have "centroids \<noteq> []" using assms(1) Suc.prems(1) by auto
  from kmeansRound_succeeds [OF this Suc.prems(1), of pixels] obtain c1 where
    r: "kmeansRound pixels k centroids = Inr c1" by blast
  from kmeansRound_result [OF r assms(3) Suc.prems(2)] Suc.prems(1)
  have "length c1 = k" "\<forall>p \<in> set c1. inGamut p" by simp_all
  from Suc.IH [OF this] r show ?case by simp
qed

lemma Math_round_inGamut:
  assumes "31 \<le> x" "x \<le> 249"
  shows "0 \<le> Math_round x" "Math_round x \<le> 255"
proof -
  have "31 \<le> Math_round x" "Math_round x \<le> 249"
    using assms unfolding Math_round_def by linarith+
  then show "0 \<le> Math_round x" "Math_round x \<le> 255" by simp_all
qed

lemma rgbToHex_wellFormed:
  assumes "inGamut (r, g, b)"
  shows "length (rgbToHex r g b) = 7 \<and> hd (rgbToHex r g b) = CHR ''#'' \<and>
         (\<forall>x \<in> set (tl (rgbToHex r g b)). x \<in> set ''0123456789abcdef'')"
proof -
  have rd: "0 \<le> Math_round r" "Math_round r \<le> 255" "0 \<le> Math_round g" "Math_round g \<le> 255"
    "0 \<le> Math_round b" "Math_round b \<le> 255"
    using assms Math_round_inGamut by (simp_all add: inGamut_def)
  have lt: "nat (Math_round r) div 16 < 16" "nat (Math_round r) mod 16 < 16"
    "nat (Math_round g) div 16 < 16" "nat (Math_round g) mod 16 < 16"
    "nat (Math_round b) div 16 < 16" "nat (Math_round b) mod 16 < 16"
    using rd by simp_all
  show ?thesis
    unfolding rgbToHex_digits [OF rd] using lt [THEN hexDigit_props(8)] by simp
qed

lemma extract_cases:
  "extractDominantColors rand d k =
     (if samplePixels d 0 [] = [] then Inr []
      else case initCentroids rand (samplePixels d 0 []) k of
             Inl e \<Rightarrow> Inl e
           | Inr centroids \<Rightarrow>
               (case kmeansRounds 10 (samplePixels d 0 []) k centroids of
                  Inl e \<Rightarrow> Inl e
                | Inr centroids' \<Rightarrow> Inr (map (\<lambda>(r, g, b). rgbToHex r g b) centroids')))"
  by (simp add: extractDominantColors_def Let_def)

lemma extract_centroids:
  assumes "extractDominantColors rand d k = Inr colors" "colors \<noteq> []"
  shows "\<exists>centroids. colors = map (\<lambda>(r, g, b). rgbToHex r g b) centroids \<and>
           length centroids = k \<and> (\<forall>p \<in> set centroids. inGamut p)"
proof -
  let ?pixels = "samplePixels d 0 []"
  have gamut: "\<forall>p \<in> set ?pixels. inGamut p"
    by (rule samplePixels_inGamut) simp
  from assms have ne: "?pixels \<noteq> []"
    by (auto simp: extract_cases split: if_splits)
  with assms(1) obtain c0 c1 where
    init: "initCentroids rand ?pixels k = Inr c0"
    and rounds: "kmeansRounds 10 ?pixels k c0 = Inr c1"
    and colors: "colors = map (\<lambda>(r, g, b). rgbToHex r g b) c1"
    by (auto simp: extract_cases split: sum.splits)
  from initCentroids_result [OF init] gamut
  have c0: "length c0 = k" "\<forall>p \<in> set c0. inGamut p" by auto
  from kmeansRounds_result [OF rounds gamut c0(2)] c0(1) colors
  show ?thesis by auto
qed

lemma sample_one: "samplePixels [200, 150, 120, 255] 0 [] = [(200, 150, 120)]"
  by (simp add: samplePixels.simps passesFilter_def pixelAt_def)

lemma round_one:
  "kmeansRound [(200, 150, 120)] (Suc 0) [(200, 150, 120)] = Inr [(200, 150, 120)]"
  by (simp add: kmeansRound_def closestCluster_def distance_def clusterMean_def)

lemma rounds_one:
  "kmeansRounds n [(200, 150, 120)] (Suc 0) [(200, 150, 120)] = Inr [(200, 150, 120)]"
  by (induction n) (simp_all add: round_one)

lemma extract_one:
  "extractDominantColors (\<lambda>i. 1 / 2) [200, 150, 120, 255] 1 = Inr [''#c89678'']"
proof -
  have "initCentroids (\<lambda>i. 1 / 2) [(200, 150, 120)] (Suc 0) = Inr [(200, 150, 120)]"
    by simp
  moreover have "rgbToHex 200 150 120 = ''#c89678''"
    by (simp add: rgbToHex_def toString16_def Math_round_def hexString.simps hexDigit_def)
  ultimately show ?thesis
    by (simp add: extract_cases sample_one rounds_one)
qed

text \<open>
  C6. \<open>Math.random()\<close> returns a number from 0 up to, not including, 1. With such a
  source, for every buffer of bytes and every \<open>k \<ge> 1\<close>, \<open>extractDominantColors\<close> returns
  a list of strings. The list is empty exactly when no sampled pixel, that is none of the
  pixels at the bytes \<open>16 * j\<close> to \<open>16 * j + 3\<close>, has an alpha above 200 and its three
  channels strictly between 30 and 250; otherwise the list has exactly \<open>k\<close> strings,
  whatever the clusters are.
\<close>

theorem dominant_colors_count:
  assumes "\<forall>i. 0 \<le> rand i \<and> rand i < 1" and "1 \<le> k"
  shows "\<exists>colors. extractDominantColors rand d k = Inr colors \<and>
           (colors = [] \<longleftrightarrow>
              (\<forall>j. \<not> (16 * j + 3 < length d \<and> 200 < unat (d ! (16 * j + 3)) \<and>
                     30 < unat (d ! (16 * j)) \<and> unat (d ! (16 * j)) < 250 \<and>
                     30 < unat (d ! (16 * j + 1)) \<and> unat (d ! (16 * j + 1)) < 250 \<and>
                     30 < unat (d ! (16 * j + 2)) \<and> unat (d ! (16 * j + 2)) < 250))) \<and>
           (colors \<noteq> [] \<longrightarrow> length colors = k)"
proof (cases "samplePixels d 0 [] = []")
  case True
  then have "extractDominantColors rand d k = Inr []"
    by (simp add: extract_cases)
  moreover from True have "\<forall>j. \<not> passesFilter d (16 * j)"
    using samplePixels_empty_iff [of d 0 "[]"] by simp
  ultimately have "\<exists>colors. extractDominantColors rand d k = Inr colors \<and>
           (colors = [] \<longleftrightarrow> (\<forall>j. \<not> passesFilter d (16 * j))) \<and>
           (colors \<noteq> [] \<longrightarrow> length colors = k)"
    by simp
  then show ?thesis unfolding passesFilter_iff .
next
  case False
  let ?pixels = "samplePixels d 0 []"
  have gamut: "\<forall>p \<in> set ?pixels. inGamut p"
    by (rule samplePixels_inGamut) simp
  from initCentroids_succeeds [OF assms(1) False, of k] obtain c0 where
    init: "initCentroids rand ?pixels k = Inr c0" by blast
  from initCentroids_result [OF init] gamut
  have c0: "length c0 = k" "\<forall>p \<in> set c0. inGamut p" by auto
  from kmeansRounds_succeeds [OF _ c0(1) gamut c0(2), of 10] assms(2) obtain c1 where
    rounds: "kmeansRounds 10 ?pixels k c0 = Inr c1" by auto
  from kmeansRounds_result [OF rounds gamut c0(2)] c0(1)
  have c1: "length c1 = k" by simp
  have "extractDominantColors rand d k = Inr (map (\<lambda>(r, g, b). rgbToHex r g b) c1)"
    using False init rounds by (simp add: extract_cases)
  moreover have "\<not> (\<forall>j. \<not> passesFilter d (16 * j))"
    using False samplePixels_empty_iff [of d 0 "[]"] by simp
  moreover have "map (\<lambda>(r, g, b). rgbToHex r g b) c1 \<noteq> []"
    using c1 assms(2) by auto
  ultimately have "\<exists>colors. extractDominantColors rand d k = Inr colors \<and>
           (colors = [] \<longleftrightarrow> (\<forall>j. \<not> passesFilter d (16 * j))) \<and>
           (colors \<noteq> [] \<longrightarrow> length colors = k)"
    using c1 by simp
  then show ?thesis unfolding passesFilter_iff .
qed

theorem dominant_colors_count_witness:
  "(\<forall>i :: nat. (0 :: real) \<le> 1 / 2 \<and> (1 / 2 :: real) < 1) \<and> (1 :: nat) \<le> 1 \<and>
   passesFilter [200, 150, 120, 255] (16 * 0) \<and>
   (\<exists>colors. extractDominantColors (\<lambda>i. 1 / 2) [200, 150, 120, 255] 1 = Inr colors \<and>
      colors \<noteq> [] \<and> length colors = 1)"
proof -
  let ?d = "[200, 150, 120, 255] :: 8 word list"
  have r: "\<forall>i :: nat. (0 :: real) \<le> (\<lambda>i. 1 / 2) i \<and> (\<lambda>i. 1 / 2 :: real) i < 1" by simp
  have k: "(1 :: nat) \<le> 1" by simp
  have p: "passesFilter ?d (16 * 0)"
    by (simp add: passesFilter_def)
  then have "\<not> (\<forall>j. \<not> passesFilter ?d (16 * j))" by blast
  with dominant_colors_count [OF r k, of ?d, folded passesFilter_iff] p
  show ?thesis by auto
qed

text \<open>
  C9. Every string of a result of \<open>extractDominantColors\<close> has seven characters, \<open>#\<close>
  and six lower-case hexadecimal digits, and is the \<open>rgbToHex\<close> of a centroid whose
  channels are from 31 to 249: the initial centroids are filtered pixels, and a round of
  k-means replaces a centroid by a mean of filtered pixels or keeps it.
\<close>

theorem dominant_colors_well_formed:
  assumes "extractDominantColors rand d k = Inr colors" and "c \<in> set colors"
  shows "length c = 7 \<and> hd c = CHR ''#'' \<and> (\<forall>x \<in> set (tl c). x \<in> set ''0123456789abcdef'') \<and>
         (\<exists>r g b. c = rgbToHex r g b \<and> 31 \<le> r \<and> r \<le> 249 \<and> 31 \<le> g \<and> g \<le> 249 \<and>
                   31 \<le> b \<and> b \<le> 249)"
proof -
  from assms(2) have "colors \<noteq> []" by auto
  from extract_centroids [OF assms(1) this] obtain centroids where
    colors: "colors = map (\<lambda>(r, g, b). rgbToHex r g b) centroids"
    and gamut: "\<forall>p \<in> set centroids. inGamut p"
    by blast
  from assms(2) colors obtain r g b where
    p: "(r, g, b) \<in> set centroids" and c: "c = rgbToHex r g b"
    by auto
  from gamut p have g: "inGamut (r, g, b)" by blast
  from rgbToHex_wellFormed [OF g] c g show ?thesis
    by (auto simp: inGamut_def)
qed

theorem dominant_colors_well_formed_witness:
  "extractDominantColors (\<lambda>i. 1 / 2) [200, 150, 120, 255] 1 = Inr [''#c89678''] \<and>
   ''#c89678'' \<in> set [''#c89678''] \<and> length ''#c89678'' = 7 \<and>
   (\<exists>r g b. ''#c89678'' = rgbToHex r g b \<and> 31 \<le> r \<and> r \<le> 249 \<and> 31 \<le> g \<and> g \<le> 249 \<and>
             31 \<le> b \<and> b \<le> 249)"
proof -
  have m: "''#c89678'' \<in> set [''#c89678'']" by simp
  from dominant_colors_well_formed [OF extract_one m] extract_one show ?thesis by simp
qed

section \<open>The order of the colours\<close>

lemma lightness_295a02:
  "snd (snd (rgbToHsl (Fin 41) (Fin 90) (Fin 2))) =
     Fin (5077587815172619 / 281474976710656)"
proof -
  have r1: "round64 (41 / 255) = (5792865403049109 / 36028797018963968)"
    by (rule round64_evalI [where k = "-55" and n = "5792865403049109", THEN trans]) simp_all
  have o1: "jdiv (Fin 41) (Fin 255) = Fin (5792865403049109 / 36028797018963968)"
    using r1 by (simp add: number64_def)
  have r2: "round64 (90 / 255) = (6358023003346583 / 18014398509481984)"
    by (rule round64_evalI [where k = "-54" and n = "6358023003346583", THEN trans]) simp_all
  have o2: "jdiv (Fin 90) (Fin 255) = Fin (6358023003346583 / 18014398509481984)"
    using r2 by (simp add: number64_def)
  have r3: "round64 (2 / 255) = (282578800148737 / 36028797018963968)"
    by (rule round64_evalI [where k = "-59" and n = "4521260802379792", THEN trans]) simp_all
  have o3: "jdiv (Fin 2) (Fin 255) = Fin (282578800148737 / 36028797018963968)"
    using r3 by (simp add: number64_def)
  have r4: "round64 ((6358023003346583 / 18014398509481984) + (282578800148737 / 36028797018963968)) = (812414050427619 / 2251799813685248)"
    by (rule round64_evalI [where k = "-54" and n = "6499312403420952", THEN trans]) simp_all
  have o4: "jadd (Fin (6358023003346583 / 18014398509481984)) (Fin (282578800148737 / 36028797018963968)) = Fin (812414050427619 / 2251799813685248)"
    using r4 by (simp add: number64_def)
  have r5: "round64 ((812414050427619 / 2251799813685248) / 2) = (812414050427619 / 4503599627370496)"
    by (rule round64_evalI [where k = "-55" and n = "6499312403420952", THEN trans]) simp_all
  have o5: "jdiv (Fin (812414050427619 / 2251799813685248)) (Fin 2) = Fin (812414050427619 / 4503599627370496)"
    using r5 by (simp add: number64_def)
  have r6: "round64 ((812414050427619 / 4503599627370496) * 100) = (5077587815172619 / 281474976710656)"
    by (rule round64_evalI [where k = "-48" and n = "5077587815172619", THEN trans]) simp_all
  have o6: "jmul (Fin (812414050427619 / 4503599627370496)) (Fin 100) = Fin (5077587815172619 / 281474976710656)"
    using r6 by (simp add: number64_def)
  show ?thesis
    by (simp add: rgbToHsl_lightness Let_def Math_max3 Math_min3 o1 o2 o3 o4 o5 o6
          del: jadd.simps jmul.simps jdiv.simps)
qed

lemma lightness_dd9f14:
  "snd (snd (rgbToHsl (Fin 221) (Fin 159) (Fin 20))) =
     Fin (207829256701189 / 4398046511104)"
proof -
  have r1: "round64 (221 / 255) = (1951559838527215 / 2251799813685248)"
    by (rule round64_evalI [where k = "-53" and n = "7806239354108860", THEN trans]) simp_all
  have o1: "jdiv (Fin 221) (Fin 255) = Fin (1951559838527215 / 2251799813685248)"
    using r1 by (simp add: number64_def)
  have r2: "round64 (159 / 255) = (1404063413239037 / 2251799813685248)"
    by (rule round64_evalI [where k = "-53" and n = "5616253652956148", THEN trans]) simp_all
  have o2: "jdiv (Fin 159) (Fin 255) = Fin (1404063413239037 / 2251799813685248)"
    using r2 by (simp add: number64_def)
  have r3: "round64 (20 / 255) = (1412894000743685 / 18014398509481984)"
    by (rule round64_evalI [where k = "-56" and n = "5651576002974740", THEN trans]) simp_all
  have o3: "jdiv (Fin 20) (Fin 255) = Fin (1412894000743685 / 18014398509481984)"
    using r3 by (simp add: number64_def)
  have r4: "round64 ((1951559838527215 / 2251799813685248) + (1412894000743685 / 18014398509481984)) = (4256343177240351 / 4503599627370496)"
    by (rule round64_evalI [where k = "-53" and n = "8512686354480702", THEN trans]) simp_all
  have o4: "jadd (Fin (1951559838527215 / 2251799813685248)) (Fin (1412894000743685 / 18014398509481984)) = Fin (4256343177240351 / 4503599627370496)"
    using r4 by (simp add: number64_def)
  have r5: "round64 ((4256343177240351 / 4503599627370496) / 2) = (4256343177240351 / 9007199254740992)"
    by (rule round64_evalI [where k = "-54" and n = "8512686354480702", THEN trans]) simp_all
  have o5: "jdiv (Fin (4256343177240351 / 4503599627370496)) (Fin 2) = Fin (4256343177240351 / 9007199254740992)"
    using r5 by (simp add: number64_def)
  have r6: "round64 ((4256343177240351 / 9007199254740992) * 100) = (207829256701189 / 4398046511104)"
    by (rule round64_evalI [where k = "-47" and n = "6650536214438048", THEN trans]) simp_all
  have o6: "jmul (Fin (4256343177240351 / 9007199254740992)) (Fin 100) = Fin (207829256701189 / 4398046511104)"
    using r6 by (simp add: number64_def)
  show ?thesis
    by (simp add: rgbToHsl_lightness Let_def Math_max3 Math_min3 o1 o2 o3 o4 o5 o6
          del: jadd.simps jmul.simps jdiv.simps)
qed

lemma lightness_df6963:
  "snd (snd (rgbToHsl (Fin 223) (Fin 105) (Fin 99))) =
     Fin (8885778676552081 / 140737488355328)"
proof -
  have r1: "round64 (223 / 255) = (1969221013536511 / 2251799813685248)"
    by (rule round64_evalI [where k = "-53" and n = "7876884054146044", THEN trans]) simp_all
  have o1: "jdiv (Fin 223) (Fin 255) = Fin (1969221013536511 / 2251799813685248)"
    using r1 by (simp add: number64_def)
  have r2: "round64 (105 / 255) = (3708846751952173 / 9007199254740992)"
    by (rule round64_evalI [where k = "-54" and n = "7417693503904346", THEN trans]) simp_all
  have o2: "jdiv (Fin 105) (Fin 255) = Fin (3708846751952173 / 9007199254740992)"
    using r2 by (simp add: number64_def)
  have r3: "round64 (99 / 255) = (6993825303681241 / 18014398509481984)"
    by (rule round64_evalI [where k = "-54" and n = "6993825303681241", THEN trans]) simp_all
  have o3: "jdiv (Fin 99) (Fin 255) = Fin (6993825303681241 / 18014398509481984)"
    using r3 by (simp add: number64_def)
  have r4: "round64 ((1969221013536511 / 2251799813685248) + (6993825303681241 / 18014398509481984)) = (1421724588248333 / 1125899906842624)"
    by (rule round64_evalI [where k = "-52" and n = "5686898352993332", THEN trans]) simp_all
  have o4: "jadd (Fin (1969221013536511 / 2251799813685248)) (Fin (6993825303681241 / 18014398509481984)) = Fin (1421724588248333 / 1125899906842624)"
    using r4 by (simp add: number64_def)
  have r5: "round64 ((1421724588248333 / 1125899906842624) / 2) = (1421724588248333 / 2251799813685248)"
    by (rule round64_evalI [where k = "-53" and n = "5686898352993332", THEN trans]) simp_all
  have o5: "jdiv (Fin (1421724588248333 / 1125899906842624)) (Fin 2) = Fin (1421724588248333 / 2251799813685248)"
    using r5 by (simp add: number64_def)
  have r6: "round64 ((1421724588248333 / 2251799813685248) * 100) = (8885778676552081 / 140737488355328)"
    by (rule round64_evalI [where k = "-47" and n = "8885778676552081", THEN trans]) simp_all
  have o6: "jmul (Fin (1421724588248333 / 2251799813685248)) (Fin 100) = Fin (8885778676552081 / 140737488355328)"
    using r6 by (simp add: number64_def)
  show ?thesis
    by (simp add: rgbToHsl_lightness Let_def Math_max3 Math_min3 o1 o2 o3 o4 o5 o6
          del: jadd.simps jmul.simps jdiv.simps)
qed

lemma lightness_fb0c9d:
  "snd (snd (rgbToHsl (Fin 251) (Fin 12) (Fin 157))) =
     Fin (907204888172825 / 17592186044416)"
proof -
  have r1: "round64 (251 / 255) = (8865909854666623 / 9007199254740992)"
    by (rule round64_evalI [where k = "-53" and n = "8865909854666623", THEN trans]) simp_all
  have o1: "jdiv (Fin 251) (Fin 255) = Fin (8865909854666623 / 9007199254740992)"
    using r1 by (simp add: number64_def)
  have r2: "round64 (12 / 255) = (847736400446211 / 18014398509481984)"
    by (rule round64_evalI [where k = "-57" and n = "6781891203569688", THEN trans]) simp_all
  have o2: "jdiv (Fin 12) (Fin 255) = Fin (847736400446211 / 18014398509481984)"
    using r2 by (simp add: number64_def)
  have r3: "round64 (157 / 255) = (1386402238229741 / 2251799813685248)"
    by (rule round64_evalI [where k = "-53" and n = "5545608952918964", THEN trans]) simp_all
  have o3: "jdiv (Fin 157) (Fin 255) = Fin (1386402238229741 / 2251799813685248)"
    using r3 by (simp add: number64_def)
  have r4: "round64 ((8865909854666623 / 9007199254740992) + (847736400446211 / 18014398509481984)) = (36288195526913 / 35184372088832)"
    by (rule round64_evalI [where k = "-52" and n = "4644889027444864", THEN trans]) simp_all
  have o4: "jadd (Fin (8865909854666623 / 9007199254740992)) (Fin (847736400446211 / 18014398509481984)) = Fin (36288195526913 / 35184372088832)"
    using r4 by (simp add: number64_def)
  have r5: "round64 ((36288195526913 / 35184372088832) / 2) = (36288195526913 / 70368744177664)"
    by (rule round64_evalI [where k = "-53" and n = "4644889027444864", THEN trans]) simp_all
  have o5: "jdiv (Fin (36288195526913 / 35184372088832)) (Fin 2) = Fin (36288195526913 / 70368744177664)"
    using r5 by (simp add: number64_def)
  have r6: "round64 ((36288195526913 / 70368744177664) * 100) = (907204888172825 / 17592186044416)"
    by (rule round64_evalI [where k = "-47" and n = "7257639105382600", THEN trans]) simp_all
  have o6: "jmul (Fin (36288195526913 / 70368744177664)) (Fin 100) = Fin (907204888172825 / 17592186044416)"
    using r6 by (simp add: number64_def)
  show ?thesis
    by (simp add: rgbToHsl_lightness Let_def Math_max3 Math_min3 o1 o2 o3 o4 o5 o6
          del: jadd.simps jmul.simps jdiv.simps)
qed

lemma avgLightness_order_1:
  "avgLightness [''#295a02'', ''#dd9f14'', ''#df6963'', ''#fb0c9d''] =
     Fin 45"
proof -
  have p: "colorHSLs [''#295a02'', ''#dd9f14'', ''#df6963'', ''#fb0c9d''] =
    [rgbToHsl (Fin 41) (Fin 90) (Fin 2),
     rgbToHsl (Fin 221) (Fin 159) (Fin 20),
     rgbToHsl (Fin 223) (Fin 105) (Fin 99),
     rgbToHsl (Fin 251) (Fin 12) (Fin 157)]"
    by (simp add: colorHSLs_def parse_simps)
  have c: "map (snd \<circ> snd) (colorHSLs [''#295a02'', ''#dd9f14'', ''#df6963'', ''#fb0c9d'']) =
    [Fin (5077587815172619 / 281474976710656),
     Fin (207829256701189 / 4398046511104),
     Fin (8885778676552081 / 140737488355328),
     Fin (907204888172825 / 17592186044416)]"
    by (simp add: p lightness_295a02 lightness_dd9f14 lightness_df6963 lightness_fb0c9d)
  have sr1: "round64 (0 + (5077587815172619 / 281474976710656)) = (5077587815172619 / 281474976710656)"
    by (rule round64_evalI [where k = "-48" and n = "5077587815172619", THEN trans]) simp_all
  have so1: "jadd (Fin 0) (Fin (5077587815172619 / 281474976710656)) = Fin (5077587815172619 / 281474976710656)"
    using sr1 by (simp add: number64_def)
  have sr2: "round64 ((5077587815172619 / 281474976710656) + (207829256701189 / 4398046511104)) = (4594665061012179 / 70368744177664)"
    by (rule round64_evalI [where k = "-46" and n = "4594665061012179", THEN trans]) simp_all
  have so2: "jadd (Fin (5077587815172619 / 281474976710656)) (Fin (207829256701189 / 4398046511104)) = Fin (4594665061012179 / 70368744177664)"
    using sr2 by (simp add: number64_def)
  have sr3: "round64 ((4594665061012179 / 70368744177664) + (8885778676552081 / 140737488355328)) = (2259388599822055 / 17592186044416)"
    by (rule round64_evalI [where k = "-45" and n = "4518777199644110", THEN trans]) simp_all
  have so3: "jadd (Fin (4594665061012179 / 70368744177664)) (Fin (8885778676552081 / 140737488355328)) = Fin (2259388599822055 / 17592186044416)"
    using sr3 by (simp add: number64_def)
  have sr4: "round64 ((2259388599822055 / 17592186044416) + (907204888172825 / 17592186044416)) = 180"
    by (rule round64_evalI [where k = "-45" and n = "6333186975989760", THEN trans]) simp_all
  have so4: "jadd (Fin (2259388599822055 / 17592186044416)) (Fin (907204888172825 / 17592186044416)) = Fin 180"
    using sr4 by (simp add: number64_def)
  have sr5: "round64 (180 / 4) = 45"
    by (rule round64_evalI [where k = "-47" and n = "6333186975989760", THEN trans]) simp_all
  have so5: "jdiv (Fin 180) (Fin 4) = Fin 45"
    using sr5 by (simp add: number64_def)
  show ?thesis
    unfolding avgLightness_alt c
    by (simp add: so1 so2 so3 so4 so5
          del: jadd.simps jmul.simps jdiv.simps)
qed

lemma avgLightness_order_2:
  "avgLightness [''#dd9f14'', ''#df6963'', ''#295a02'', ''#fb0c9d''] =
     Fin (6333186975989759 / 140737488355328)"
proof -
  have p: "colorHSLs [''#dd9f14'', ''#df6963'', ''#295a02'', ''#fb0c9d''] =
    [rgbToHsl (Fin 221) (Fin 159) (Fin 20),
     rgbToHsl (Fin 223) (Fin 105) (Fin 99),
     rgbToHsl (Fin 41) (Fin 90) (Fin 2),
     rgbToHsl (Fin 251) (Fin 12) (Fin 157)]"
    by (simp add: colorHSLs_def parse_simps)
  have c: "map (snd \<circ> snd) (colorHSLs [''#dd9f14'', ''#df6963'', ''#295a02'', ''#fb0c9d'']) =
    [Fin (207829256701189 / 4398046511104),
     Fin (8885778676552081 / 140737488355328),
     Fin (5077587815172619 / 281474976710656),
     Fin (907204888172825 / 17592186044416)]"
    by (simp add: p lightness_dd9f14 lightness_df6963 lightness_295a02 lightness_fb0c9d)
  have sr1: "round64 (0 + (207829256701189 / 4398046511104)) = (207829256701189 / 4398046511104)"
    by (rule round64_evalI [where k = "-47" and n = "6650536214438048", THEN trans]) simp_all
  have so1: "jadd (Fin 0) (Fin (207829256701189 / 4398046511104)) = Fin (207829256701189 / 4398046511104)"
    using sr1 by (simp add: number64_def)
  have sr2: "round64 ((207829256701189 / 4398046511104) + (8885778676552081 / 140737488355328)) = (971019680686883 / 8796093022208)"
    by (rule round64_evalI [where k = "-46" and n = "7768157445495064", THEN trans]) simp_all
  have so2: "jadd (Fin (207829256701189 / 4398046511104)) (Fin (8885778676552081 / 140737488355328)) = Fin (971019680686883 / 8796093022208)"
    using sr2 by (simp add: number64_def)
  have sr3: "round64 ((971019680686883 / 8796093022208) + (5077587815172619 / 281474976710656)) = (4518777199644109 / 35184372088832)"
    by (rule round64_evalI [where k = "-45" and n = "4518777199644109", THEN trans]) simp_all
  have so3: "jadd (Fin (971019680686883 / 8796093022208)) (Fin (5077587815172619 / 281474976710656)) = Fin (4518777199644109 / 35184372088832)"
    using sr3 by (simp add: number64_def)
  have sr4: "round64 ((4518777199644109 / 35184372088832) + (907204888172825 / 17592186044416)) = (6333186975989759 / 35184372088832)"
    by (rule round64_evalI [where k = "-45" and n = "6333186975989759", THEN trans]) simp_all
  have so4: "jadd (Fin (4518777199644109 / 35184372088832)) (Fin (907204888172825 / 17592186044416)) = Fin (6333186975989759 / 35184372088832)"
    using sr4 by (simp add: number64_def)
  have sr5: "round64 ((6333186975989759 / 35184372088832) / 4) = (6333186975989759 / 140737488355328)"
    by (rule round64_evalI [where k = "-47" and n = "6333186975989759", THEN trans]) simp_all
  have so5: "jdiv (Fin (6333186975989759 / 35184372088832)) (Fin 4) = Fin (6333186975989759 / 140737488355328)"
    using sr5 by (simp add: number64_def)
  show ?thesis
    unfolding avgLightness_alt c
    by (simp add: so1 so2 so3 so4 so5
          del: jadd.simps jmul.simps jdiv.simps)
qed

lemma jadd_zero_double:
  assumes "\<bar>v\<bar> \<le> 360" "round64 v = v"
  shows "jadd (Fin 0) (Fin v) = Fin v"
proof -
  have "\<bar>0 + v\<bar> \<le> 1000" using assms(1) by simp
  from jadd_Fin [OF this] assms(2) show ?thesis by simp
qed

lemma first_two_swapped:
  assumes "x = NaN \<or> (\<exists>v. x = Fin v \<and> \<bar>v\<bar> \<le> 360 \<and> round64 v = v)"
    and "y = NaN \<or> (\<exists>v. y = Fin v \<and> \<bar>v\<bar> \<le> 360 \<and> round64 v = v)"
  shows "jadd (jadd (Fin 0) x) y = jadd (jadd (Fin 0) y) x"
proof (cases "x = NaN \<or> y = NaN")
  case True
  with assms show ?thesis
    by (auto simp: jadd_zero_double simp del: jadd.simps(1))
next
  case False
  with assms obtain v w where "x = Fin v" "\<bar>v\<bar> \<le> 360" "round64 v = v"
    "y = Fin w" "\<bar>w\<bar> \<le> 360" "round64 w = w"
    by auto
  then show ?thesis
    by (simp add: jadd_zero_double add.commute del: jadd.simps(1)) (simp add: add.commute)
qed

lemma components_double:
  assumes "t \<in> set (colorHSLs colors)"
  shows "fst t = NaN \<or> (\<exists>v. fst t = Fin v \<and> \<bar>v\<bar> \<le> 360 \<and> round64 v = v)"
    and "snd (snd t) = NaN \<or> (\<exists>v. snd (snd t) = Fin v \<and> \<bar>v\<bar> \<le> 360 \<and> round64 v = v)"
  using colorHSLs_shape [OF assms] by auto

lemma averages_swapped:
  "avgHue (c2 # c1 # colors) = avgHue (c1 # c2 # colors)"
  "avgLightness (c2 # c1 # colors) = avgLightness (c1 # c2 # colors)"
proof -
  define t1 t2 where "t1 = hd (colorHSLs [c1])" and "t2 = hd (colorHSLs [c2])"
  have eq: "colorHSLs (c1 # c2 # colors) = t1 # t2 # colorHSLs colors"
    "colorHSLs (c2 # c1 # colors) = t2 # t1 # colorHSLs colors"
    by (simp_all add: colorHSLs_def t1_def t2_def)
  have "t1 \<in> set (colorHSLs [c1])" "t2 \<in> set (colorHSLs [c2])"
    by (simp_all add: colorHSLs_def t1_def t2_def)
  note d = components_double [OF this(1)] components_double [OF this(2)]
  show "avgHue (c2 # c1 # colors) = avgHue (c1 # c2 # colors)"
    unfolding avgHue_alt eq using first_two_swapped [OF d(1) d(3)] by simp
  show "avgLightness (c2 # c1 # colors) = avgLightness (c1 # c2 # colors)"
    unfolding avgLightness_alt eq using first_two_swapped [OF d(2) d(4)] by simp
qed

text \<open>
  C10. The profile is a function of the two averages the program computes: two lists with
  the same \<open>avgHue\<close> and the same \<open>avgLightness\<close> get the same undertone, level, palettes,
  phrases and recommendations, and differ in the echoed \<open>dominantColors\<close> only. Exchanging
  the first two colours of a list changes neither average. The colours are echoed in the
  order given.
\<close>

theorem profile_by_averages:
  "(avgHue colors' = avgHue colors \<and> avgLightness colors' = avgLightness colors \<longrightarrow>
      analyzeSkinTone colors' = (analyzeSkinTone colors)\<lparr>dominantColors := colors'\<rparr>) \<and>
   avgHue (c2 # c1 # rest) = avgHue (c1 # c2 # rest) \<and>
   avgLightness (c2 # c1 # rest) = avgLightness (c1 # c2 # rest) \<and>
   dominantColors (analyzeSkinTone colors) = colors"
proof (intro conjI impI)
  assume "avgHue colors' = avgHue colors \<and> avgLightness colors' = avgLightness colors"
  then show "analyzeSkinTone colors' = (analyzeSkinTone colors)\<lparr>dominantColors := colors'\<rparr>"
    by (simp add: analyzeSkinTone_def Let_def split_def)
next
  show "avgHue (c2 # c1 # rest) = avgHue (c1 # c2 # rest)"
    by (rule averages_swapped)
  show "avgLightness (c2 # c1 # rest) = avgLightness (c1 # c2 # rest)"
    by (rule averages_swapped)
  show "dominantColors (analyzeSkinTone colors) = colors"
    by (simp add: analyzeSkinTone_def Let_def split_def)
qed

theorem profile_by_averages_witness:
  "avgHue [''#c89678'', ''#963200''] = avgHue [''#963200'', ''#c89678''] \<and>
   avgLightness [''#c89678'', ''#963200''] = avgLightness [''#963200'', ''#c89678''] \<and>
   analyzeSkinTone [''#c89678'', ''#963200''] =
     (analyzeSkinTone [''#963200'', ''#c89678''])\<lparr>dominantColors := [''#c89678'', ''#963200'']\<rparr>"
  using profile_by_averages [of "[''#c89678'', ''#963200'']" "[''#963200'', ''#c89678'']"
      "''#c89678''" "''#963200''" "[]"]
  by blast

text \<open>
  Another permutation can change an average by a rounding error, and the level with it:
  the four lightnesses below add up to 180 in one order and to a little less in another,
  so that the mean is 45, Medium Brown, or just under it, Deep Brown.
\<close>

theorem permutation_changes_level:
  "mset [''#dd9f14'', ''#df6963'', ''#295a02'', ''#fb0c9d''] =
     mset [''#295a02'', ''#dd9f14'', ''#df6963'', ''#fb0c9d''] \<and>
   avgLightness [''#295a02'', ''#dd9f14'', ''#df6963'', ''#fb0c9d''] = Fin 45 \<and>
   avgLightness [''#dd9f14'', ''#df6963'', ''#295a02'', ''#fb0c9d''] =
     Fin (6333186975989759 / 140737488355328) \<and>
   level_number (skinToneLevel
     (analyzeSkinTone [''#295a02'', ''#dd9f14'', ''#df6963'', ''#fb0c9d''])) = 7 \<and>
   level_name (skinToneLevel
     (analyzeSkinTone [''#295a02'', ''#dd9f14'', ''#df6963'', ''#fb0c9d''])) = ''Medium Brown'' \<and>
   level_number (skinToneLevel
     (analyzeSkinTone [''#dd9f14'', ''#df6963'', ''#295a02'', ''#fb0c9d''])) = 8 \<and>
   level_name (skinToneLevel
     (analyzeSkinTone [''#dd9f14'', ''#df6963'', ''#295a02'', ''#fb0c9d''])) = ''Deep Brown''"
proof -
  have "mset [''#dd9f14'', ''#df6963'', ''#295a02'', ''#fb0c9d''] =
     mset [''#295a02'', ''#dd9f14'', ''#df6963'', ''#fb0c9d'']"
    by (simp add: add_mset_commute)
  moreover from level_of_Fin [OF avgLightness_order_1]
  have "level_number (skinToneLevel
     (analyzeSkinTone [''#295a02'', ''#dd9f14'', ''#df6963'', ''#fb0c9d''])) = 7"
    "level_name (skinToneLevel
     (analyzeSkinTone [''#295a02'', ''#dd9f14'', ''#df6963'', ''#fb0c9d''])) = ''Medium Brown''"
    by (simp_all add: specLightnessLevel_def)
  moreover from level_of_Fin [OF avgLightness_order_2]
  have "level_number (skinToneLevel
     (analyzeSkinTone [''#dd9f14'', ''#df6963'', ''#295a02'', ''#fb0c9d''])) = 8"
    "level_name (skinToneLevel
     (analyzeSkinTone [''#dd9f14'', ''#df6963'', ''#295a02'', ''#fb0c9d''])) = ''Deep Brown''"
    by (simp_all add: specLightnessLevel_def)
  ultimately show ?thesis
    using avgLightness_order_1 avgLightness_order_2 by blast
qed

end
